theory Spec2Isabelle
  imports Main
begin

section \<open>C strings and small helpers\<close>

text \<open>
  A C string is modelled as a \<open>string\<close> (a list of bytes) that ends where the list
  ends; the terminating NUL is implicit.  Where the source keeps a length-delimited
  buffer (\<open>string_t\<close>) that may hold a NUL written in place, the buffer is a
  \<open>string\<close> too and \<open>c_str\<close> is the C string that a \<open>char *\<close> into its start
  denotes.
\<close>

definition c_str :: "string \<Rightarrow> string" where
  "c_str buf = takeWhile (\<lambda>c. c \<noteq> CHR 0x00) buf"

text \<open>\<open>#define IS_WHITE(c) ((c) == ' ' || (c) == '\t')\<close>\<close>

definition IS_WHITE :: "char \<Rightarrow> bool" where
  "IS_WHITE c = (c = CHR '' '' \<or> c = CHR 0x09)"

text \<open>
  Modelled from the spec: \<open>str_begins_with(s, prefix)\<close> is the library's (not among
  the sources); it says whether \<open>s\<close> starts with \<open>prefix\<close>, as in "an occurrence of
  \<open>$ENV:NAME\<close>".
\<close>

definition str_begins_with :: "string \<Rightarrow> string \<Rightarrow> bool" where
  "str_begins_with s pre = (take (length pre) s = pre)"

text \<open>
  \<open>strchr(s + i, c)\<close> as an offset into \<open>s\<close>: the position of the first \<open>c\<close> at or
  after offset \<open>i\<close>, \<open>None\<close> for the NULL result.
\<close>

fun strchr_from :: "string \<Rightarrow> nat \<Rightarrow> char \<Rightarrow> nat option" where
  "strchr_from s i c =
     (case dropWhile (\<lambda>x. x \<noteq> c) (drop i s) of
        [] \<Rightarrow> None
      | _ # _ \<Rightarrow> Some (i + length (takeWhile (\<lambda>x. x \<noteq> c) (drop i s))))"

text \<open>\<open>strrchr(s, c)\<close>: the position of the last \<open>c\<close> in \<open>s\<close>.\<close>

definition strrchr :: "string \<Rightarrow> char \<Rightarrow> nat option" where
  "strrchr s c =
     (case dropWhile (\<lambda>x. x \<noteq> c) (rev s) of
        [] \<Rightarrow> None
      | _ # r \<Rightarrow> Some (length r))"

text \<open>
  Modelled from the spec: \<open>t_strcut(s, c)\<close> is the library's (not among the sources);
  it gives the part of \<open>s\<close> before the first \<open>c\<close>, as the selector \<open>A/B/C\<close> gives
  the target \<open>A\<close>.
\<close>

definition t_strcut :: "string \<Rightarrow> char \<Rightarrow> string" where
  "t_strcut s c = takeWhile (\<lambda>x. x \<noteq> c) s"

text \<open>Printing an unsigned number with \<open>%d\<close> or \<open>%u\<close>.\<close>

definition digit_char :: "nat \<Rightarrow> char" where
  "digit_char d = char_of (48 + d)"

fun string_of_nat :: "nat \<Rightarrow> string" where
  "string_of_nat n =
     (if n < 10 then [digit_char n]
      else string_of_nat (n div 10) @ [digit_char (n mod 10)])"

section \<open>Value coercers\<close>

text \<open>\<open>strcasecmp(a, b) == 0\<close> on ASCII letters.\<close>

definition ascii_lower :: "char \<Rightarrow> char" where
  "ascii_lower c =
     (let n = (of_char c :: nat) in if 65 \<le> n \<and> n \<le> 90 then char_of (n + 32) else c)"

definition strcasecmp_eq :: "string \<Rightarrow> string \<Rightarrow> bool" where
  "strcasecmp_eq a b = (map ascii_lower a = map ascii_lower b)"

text \<open>\<open>get_bool\<close>: the error text, or the boolean written to \<open>*result\<close>.\<close>

definition get_bool :: "string \<Rightarrow> string + bool" where
  "get_bool v =
     (if strcasecmp_eq v ''yes'' then Inr True
      else if strcasecmp_eq v ''no'' then Inr False
      else Inl (''Invalid boolean: '' @ v))"

text \<open>
  \<open>sscanf(value, "%i", &num)\<close> is the C library's, not the repository's.  It is
  modelled as the GNU C library does it where \<open>long\<close> has 64 bits and \<open>int\<close> 32:
  white space is skipped and an optional sign is read; then \<open>0x\<close> or \<open>0X\<close> makes the
  base 16 and the hexadecimal digits that follow are read (there may be none, the
  literal is then the \<open>0\<close>), another leading \<open>0\<close> makes the base 8, and otherwise
  decimal digits are read, at least one.  What follows the digits is left unread.  The
  digits are converted by \<open>strtol\<close>, which stops at \<open>LONG_MIN\<close> and \<open>LONG_MAX\<close>, and the
  \<open>long\<close> is stored into the \<open>int\<close> by keeping its low 32 bits.  \<open>No_Match\<close> is a
  return value other than 1.
\<close>

datatype scan_result = No_Match | Match int

definition isspace :: "char \<Rightarrow> bool" where
  "isspace c = (c \<in> set [CHR '' '', CHR 0x09, CHR 0x0A, CHR 0x0B, CHR 0x0C, CHR 0x0D])"

definition digit_val :: "char \<Rightarrow> nat option" where
  "digit_val c =
     (let n = (of_char c :: nat) in
      if 48 \<le> n \<and> n \<le> 57 then Some (n - 48)
      else if 97 \<le> n \<and> n \<le> 102 then Some (n - 87)
      else if 65 \<le> n \<and> n \<le> 70 then Some (n - 55)
      else None)"

definition is_digit :: "nat \<Rightarrow> char \<Rightarrow> bool" where
  "is_digit base c = (case digit_val c of None \<Rightarrow> False | Some d \<Rightarrow> d < base)"

definition digits_value :: "nat \<Rightarrow> string \<Rightarrow> nat" where
  "digits_value base ds = foldl (\<lambda>a c. a * base + the (digit_val c)) 0 ds"

definition scan_magnitude :: "string \<Rightarrow> nat option" where
  "scan_magnitude s =
     (if str_begins_with s ''0x'' \<or> str_begins_with s ''0X'' then
        Some (digits_value 16 (takeWhile (is_digit 16) (drop 2 s)))
      else if str_begins_with s ''0'' then Some (digits_value 8 (takeWhile (is_digit 8) s))
      else
        (let ds = takeWhile (is_digit 10) s in
         if ds = [] then None else Some (digits_value 10 ds)))"

definition INT_MAX :: int where
  "INT_MAX = 2147483647"

definition INT_MIN :: int where
  "INT_MIN = - 2147483648"

definition LONG_MAX :: int where
  "LONG_MAX = 9223372036854775807"

definition LONG_MIN :: int where
  "LONG_MIN = - 9223372036854775808"

text \<open>The \<open>long\<close> that \<open>strtol\<close> returns for a sign and a magnitude.\<close>

definition strtol_value :: "bool \<Rightarrow> nat \<Rightarrow> int" where
  "strtol_value neg m = (if neg then max (- int m) LONG_MIN else min (int m) LONG_MAX)"

text \<open>The \<open>int\<close> that holds the low 32 bits of a \<open>long\<close>.\<close>

definition int_of_long :: "int \<Rightarrow> int" where
  "int_of_long v = (v + 2147483648) mod 4294967296 - 2147483648"

definition sscanf_i :: "string \<Rightarrow> scan_result" where
  "sscanf_i s =
     (let s1 = dropWhile isspace s;
          neg = str_begins_with s1 ''-'';
          s2 = (if str_begins_with s1 ''-'' \<or> str_begins_with s1 ''+'' then tl s1 else s1)
      in case scan_magnitude s2 of
           None \<Rightarrow> No_Match
         | Some m \<Rightarrow> Match (int_of_long (strtol_value neg m)))"

text \<open>
  \<open>get_uint\<close>: \<open>Invalid_Number msg\<close> is the returned error text (\<open>*result\<close> is not
  written), \<open>Uint n\<close> is the NULL return with \<open>n\<close> written to \<open>*result\<close>.
\<close>

datatype uint_result = Invalid_Number string | Uint nat

definition get_uint :: "string \<Rightarrow> uint_result" where
  "get_uint v =
     (case sscanf_i v of
        No_Match \<Rightarrow> Invalid_Number (''Invalid number: '' @ v)
      | Match num \<Rightarrow>
          (if num < 0 then Invalid_Number (''Invalid number: '' @ v) else Uint (nat num)))"

section \<open>Definition-driven setter\<close>

text \<open>
  Modelled from the spec: \<open>struct setting_def\<close> and \<open>enum setting_type\<close> are declared
  in \<open>settings.h\<close> (not among the sources); a definition has a name, a byte offset
  within the consumer's record and a value kind, one of \<open>STR\<close>, \<open>INT\<close>, \<open>BOOL\<close>.  The
  record that \<open>base\<close> points to is a map from byte offsets to the values stored there.
\<close>

datatype setting_type = SET_STR | SET_INT | SET_BOOL

record setting_def =
  def_type :: setting_type
  def_name :: string
  def_offset :: nat

datatype setting_value = Str_Value string | Int_Value nat | Bool_Value bool

datatype set_result =
    Set_Error string
  | Set_Ok "nat \<Rightarrow> setting_value option"

fun parse_setting_from_defs ::
  "setting_def list \<Rightarrow> (nat \<Rightarrow> setting_value option) \<Rightarrow> string \<Rightarrow> string \<Rightarrow> set_result" where
  "parse_setting_from_defs [] base key v = Set_Error (''Unknown setting: '' @ key)"
| "parse_setting_from_defs (d # defs) base key v =
     (if def_name d = key then
        (case def_type d of
           SET_STR \<Rightarrow> Set_Ok (base(def_offset d \<mapsto> Str_Value v))
         | SET_INT \<Rightarrow>
             (case get_uint v of
                Invalid_Number e \<Rightarrow> Set_Error e
              | Uint n \<Rightarrow> Set_Ok (base(def_offset d \<mapsto> Int_Value n)))
         | SET_BOOL \<Rightarrow>
             (case get_bool v of
                Inl e \<Rightarrow> Set_Error e
              | Inr b \<Rightarrow> Set_Ok (base(def_offset d \<mapsto> Bool_Value b))))
      else parse_setting_from_defs defs base key v)"

section \<open>Environment expander\<close>

text \<open>
  \<open>expand_environment_vars\<close>.  Pointers into \<open>value\<close> are offsets; \<open>expand_loop\<close> is
  the \<open>while\<close> loop together with the final \<open>str_append\<close>, started with \<open>pvalue\<close> at
  offset \<open>i\<close>, and returns what is appended to \<open>expanded_value\<close> from there on.  A
  \<open>var_end\<close> of NULL ends the loop with nothing more appended.
\<close>

function expand_loop :: "(string \<Rightarrow> string option) \<Rightarrow> string \<Rightarrow> nat \<Rightarrow> string" where
  "expand_loop getenv v i =
     (case strchr_from v i (CHR ''$'') of
        None \<Rightarrow> drop i v
      | Some p \<Rightarrow>
          take (p - i) (drop i v) @
          (if (p = 0 \<or> IS_WHITE (v ! (p - 1))) \<and> str_begins_with (drop p v) ''$ENV:'' then
             (case strchr_from v p (CHR '' '') of
                None \<Rightarrow> (case getenv (drop (p + 5) v) of None \<Rightarrow> [] | Some envval \<Rightarrow> envval)
              | Some var_end \<Rightarrow>
                  (case getenv (take (var_end - (p + 5)) (drop (p + 5) v)) of
                     None \<Rightarrow> []
                   | Some envval \<Rightarrow> envval) @
                  expand_loop getenv v var_end)
           else CHR ''$'' # expand_loop getenv v (p + 1)))"
  by pat_completeness auto

lemma strchr_from_Some:
  assumes "strchr_from s i c = Some p"
  shows "i \<le> p \<and> p < length s \<and> s ! p = c"
proof -
  let ?xs = "drop i s"
  let ?t = "takeWhile (\<lambda>x. x \<noteq> c) ?xs"
  let ?d = "dropWhile (\<lambda>x. x \<noteq> c) ?xs"
  from assms have ne: "?d \<noteq> []"
    by (cases ?d) simp_all
  from assms have p: "p = i + length ?t"
    by (cases ?d) simp_all
  have "length ?t + length ?d = length ?xs"
    by (metis length_append takeWhile_dropWhile_id)
  with ne have len: "length ?t < length ?xs"
    by (cases ?d) auto
  from nth_length_takeWhile [OF len] have "?xs ! length ?t = c"
    by simp
  with len p show ?thesis
    by (simp add: add.commute)
qed

termination expand_loop
proof (relation "measure (\<lambda>(getenv, v, i). length v - i)", goal_cases)
  case 1
  show ?case by simp
next
  case (2 getenv v i p var_end)
  from strchr_from_Some [OF 2(1)] have a: "i \<le> p" "p < length v" "v ! p = CHR ''$''"
    by simp_all
  from strchr_from_Some [OF 2(3)] have b: "p \<le> var_end" "var_end < length v" "v ! var_end = CHR '' ''"
    by simp_all
  from a b have "p \<noteq> var_end" by auto
  with a b show ?case by simp
next
  case (3 getenv v i p)
  from strchr_from_Some [OF 3(1)] have "i \<le> p" "p < length v"
    by simp_all
  then show ?case by simp
qed

definition expand_environment_vars :: "(string \<Rightarrow> string option) \<Rightarrow> string \<Rightarrow> string" where
  "expand_environment_vars getenv v =
     (case strchr_from v 0 (CHR ''$'') of
        None \<Rightarrow> v
      | Some pvalue \<Rightarrow> take pvalue v @ expand_loop getenv v pvalue)"

section \<open>The outside world\<close>

text \<open>
  What the parser reads from its environment is a parameter: \<open>open\<close> (the lines of the
  file, or \<open>errno\<close>), whether the build has \<open>HAVE_GLOB\<close>, \<open>glob\<close> with \<open>GLOB_BRACE\<close>,
  and \<open>getenv\<close>.  The input stream is the library's (\<open>istream\<close>, not among the
  sources) and is taken as the spec has it, a line-producing byte source: an opened
  file is the list of the lines that \<open>i_stream_read_next_line\<close> returns for it, one after
  the other, a last line without newline included.
\<close>

datatype errno = ENOENT | EACCES | EMFILE

fun strerror :: "errno \<Rightarrow> string" where
  "strerror ENOENT = ''No such file or directory''"
| "strerror EACCES = ''Permission denied''"
| "strerror EMFILE = ''Too many open files''"

datatype glob_result =
    Glob_Ok "string list"
  | GLOB_NOSPACE
  | GLOB_ABORTED
  | GLOB_NOMATCH
  | Glob_Unknown

record world =
  sys_open :: "string \<Rightarrow> errno + string list"
  have_glob :: bool
  sys_glob :: "string \<Rightarrow> glob_result"
  sys_getenv :: "string \<Rightarrow> string option"

section \<open>Input stack and includes\<close>

text \<open>
  \<open>struct input_stack\<close>: the \<open>prev\<close> link is the tail of the list that holds the
  frame, \<open>stream\<close> is what is left to read of \<open>input\<close>.
\<close>

record input_stack =
  path :: string
  stream :: "string list"
  linenum :: nat

definition fix_relative_path :: "string \<Rightarrow> input_stack \<Rightarrow> string" where
  "fix_relative_path p inp =
     (if str_begins_with p ''/'' then p
      else case strrchr (path inp) (CHR ''/'') of
             None \<Rightarrow> p
           | Some k \<Rightarrow> take (k + 1) (path inp) @ p)"

text \<open>
  \<open>settings_add_include\<close> and \<open>settings_include\<close> return the error text written to
  \<open>*error_r\<close> (\<open>Some\<close> for the return value -1, \<open>None\<close> for 0) and the stack that
  \<open>*inputp\<close> points to afterwards.
\<close>

definition settings_add_include ::
  "world \<Rightarrow> string \<Rightarrow> input_stack list \<Rightarrow> bool \<Rightarrow> string option \<times> input_stack list" where
  "settings_add_include w p inputp ignore_errors =
     (if list_ex (\<lambda>tmp. path tmp = p) inputp then
        (Some (''Recursive include file: '' @ p), inputp)
      else case sys_open w p of
             Inl e \<Rightarrow>
               (if ignore_errors then (None, inputp)
                else (Some (''Couldn't open include file '' @ p @ '': '' @ strerror e), inputp))
           | Inr content \<Rightarrow>
               (None, \<lparr>path = p, stream = content, linenum = 0\<rparr> # inputp))"

fun add_includes ::
  "world \<Rightarrow> string list \<Rightarrow> input_stack list \<Rightarrow> bool \<Rightarrow> string option \<times> input_stack list" where
  "add_includes w [] inputp ignore_errors = (None, inputp)"
| "add_includes w (p # pathv) inputp ignore_errors =
     (case settings_add_include w p inputp ignore_errors of
        (Some e, inputp') \<Rightarrow> (Some e, inputp')
      | (None, inputp') \<Rightarrow> add_includes w pathv inputp' ignore_errors)"

definition settings_include ::
  "world \<Rightarrow> string \<Rightarrow> input_stack list \<Rightarrow> bool \<Rightarrow> string option \<times> input_stack list" where
  "settings_include w pattern inputp ignore_errors =
     (if have_glob w then
        (case sys_glob w pattern of
           Glob_Ok pathv \<Rightarrow> add_includes w pathv inputp ignore_errors
         | GLOB_NOSPACE \<Rightarrow> (Some ''glob() failed: Not enough memory'', inputp)
         | GLOB_ABORTED \<Rightarrow> (Some ''glob() failed: Read error'', inputp)
         | GLOB_NOMATCH \<Rightarrow>
             (if ignore_errors then (None, inputp) else (Some ''No matches'', inputp))
         | Glob_Unknown \<Rightarrow> (Some ''glob() failed: Unknown error'', inputp))
      else settings_add_include w pattern inputp ignore_errors)"

section \<open>Line scanner\<close>

text \<open>
  The inner \<open>for\<close> loop of the comment scan, started after an opening quote: the
  number of bytes up to the closing quote, or up to the end of the line.
\<close>

fun scan_quoted :: "char \<Rightarrow> string \<Rightarrow> nat" where
  "scan_quoted quote [] = 0"
| "scan_quoted quote [c] = (if c = quote then 0 else 1)"
| "scan_quoted quote (c # d # cs) =
     (if c = quote then 0
      else if c = CHR 0x5C then 2 + scan_quoted quote cs
      else 1 + scan_quoted quote (d # cs))"

lemma scan_quoted_le: "scan_quoted quote cs \<le> length cs"
  by (induction quote cs rule: scan_quoted.induct) auto

text \<open>The outer loop: the offset of the \<open>#\<close> that starts a comment, if there is one.\<close>

function comment_pos :: "string \<Rightarrow> nat option" where
  "comment_pos [] = None"
| "comment_pos (c # cs) =
     (if c = CHR 0x27 \<or> c = CHR 0x22 then
        (let n = scan_quoted c cs in
         if length cs \<le> n then None
         else map_option (\<lambda>k. n + 2 + k) (comment_pos (drop (n + 1) cs)))
      else if c = CHR ''#'' then Some 0
      else map_option Suc (comment_pos cs))"
  by pat_completeness auto
termination
  by (relation "measure length") auto

definition rtrim :: "string \<Rightarrow> string" where
  "rtrim s = rev (dropWhile IS_WHITE (rev s))"

section \<open>Parser state\<close>

text \<open>
  The callbacks take and return the caller's \<open>context\<close> (here \<open>cb_context\<close>).  \<open>sect_callback\<close> returns
  its boolean and what it stored in \<open>*errormsg\<close>; its two string arguments are NULL
  (\<open>None\<close>) for a section end.  Every call is also logged in \<open>events\<close>.
\<close>

datatype event =
    Callback string string
  | Sect_Callback "string option" "string option"

record 'c callbacks =
  callback :: "string \<Rightarrow> string \<Rightarrow> 'c \<Rightarrow> string option \<times> 'c"
  sect_callback ::
    "(string option \<Rightarrow> string option \<Rightarrow> 'c \<Rightarrow> (bool \<times> string option) \<times> 'c) option"

text \<open>
  How \<open>settings_read_i\<close> ends: it returns a boolean with \<open>*error_r\<close>, or the process
  stops on a failed \<open>i_assert\<close> or reads outside the line buffer.
\<close>

datatype outcome =
    Returned bool "string option"
  | Assert_Failed string
  | Out_Of_Bounds

text \<open>
  The locals of \<open>settings_read_i\<close>.  \<open>input\<close> is the stack, top first.  \<open>section_ptr\<close> is
  the pointer \<open>section\<close>: it is read only while \<open>next_section\<close> is not NULL, and holds the empty string for a NULL
  selector.  \<open>linenum\<close>, \<open>skip\<close> and \<open>sections\<close> are unbounded here (the source has
  \<open>unsigned int\<close> and \<open>int\<close>).  \<open>result\<close> is \<open>None\<close> while the loop runs.
\<close>

record 'c parser_state =
  input :: "input_stack list"
  full_line :: string
  skip :: int
  sections :: int
  root_section :: int
  section_ptr :: string
  next_section :: "string option"
  last_section_path :: "string option"
  last_section_line :: nat
  cb_context :: 'c
  events :: "event list"
  warnings :: "(string \<times> nat) list"
  result :: "outcome option"

section \<open>Structural parser\<close>

text \<open>
  Modelled from the spec: \<open>str_unescape\<close> is the library's (\<open>lib/strescape.c\<close>, not
  among the sources).  Inside a quoted value a backslash followed by a byte stands for
  that byte; a backslash that ends the string is dropped.
\<close>

fun str_unescape :: "string \<Rightarrow> string" where
  "str_unescape [] = []"
| "str_unescape [c] = (if c = CHR 0x5C then [] else [c])"
| "str_unescape (c # d # cs) =
     (if c = CHR 0x5C then d # str_unescape cs else c # str_unescape (d # cs))"

text \<open>The end of one loop iteration: the error exit, or \<open>str_truncate(full_line, 0)\<close>.\<close>

definition error_exit :: "'c parser_state \<Rightarrow> string \<Rightarrow> 'c parser_state" where
  "error_exit st errormsg =
     st\<lparr>result := Some (Returned False (Some
        (''Error in configuration file '' @ path (hd (input st)) @ '' line '' @
         string_of_nat (linenum (hd (input st))) @ '': '' @ errormsg)))\<rparr>"

definition line_done :: "'c parser_state \<Rightarrow> string option \<Rightarrow> 'c parser_state" where
  "line_done st errormsg =
     (case errormsg of
        None \<Rightarrow> st\<lparr>full_line := []\<rparr>
      | Some e \<Rightarrow> error_exit st e)"

text \<open>
  The value of an assignment, from what follows \<open>=\<close>: the text between matching outer
  quotes unescaped, or else the text with the environment expanded.
\<close>

definition is_quoted :: "string \<Rightarrow> bool" where
  "is_quoted v =
     (0 < length v \<and>
      ((hd v = CHR 0x22 \<and> last v = CHR 0x22) \<or> (hd v = CHR 0x27 \<and> last v = CHR 0x27)))"

definition assignment_value :: "world \<Rightarrow> string \<Rightarrow> string" where
  "assignment_value w line =
     (let v = dropWhile IS_WHITE line in
      if is_quoted v then str_unescape (butlast (tl v))
      else expand_environment_vars (sys_getenv w) v)"

text \<open>Branch a): \<open>line\<close> is what follows the \<open>=\<close>.\<close>

definition assignment ::
  "world \<Rightarrow> 'c callbacks \<Rightarrow> 'c parser_state \<Rightarrow> string \<Rightarrow> string \<Rightarrow> 'c parser_state" where
  "assignment w cb st key line =
     (let v = assignment_value w line in
      if 0 < skip st then line_done st None
      else
        (case callback cb key v (cb_context st) of
           (errormsg, c) \<Rightarrow>
             line_done (st\<lparr>cb_context := c, events := events st @ [Callback key v]\<rparr>) errormsg))"

text \<open>
  Branch b): \<open>line\<close> is what follows the key and its white space.  The bytes after
  \<open>{\<close> are not looked at.
\<close>

definition section_name :: "string \<Rightarrow> string \<times> string" where
  "section_name line =
     (if str_begins_with line ''{'' then ([], line)
      else
        (let name = takeWhile (\<lambda>c. \<not> IS_WHITE c) line;
             r = drop (length name) line
         in (name, if r \<noteq> [] then dropWhile IS_WHITE (tl r) else r)))"

definition match_section :: "'c parser_state \<Rightarrow> string \<Rightarrow> 'c parser_state" where
  "match_section st name =
     (case next_section st of
        None \<Rightarrow> st
      | Some ns \<Rightarrow>
          (if ns = name then
             (let sec = drop (length ns) (section_ptr st) in
              if sec = [] then
                st\<lparr>section_ptr := sec, skip := 0, next_section := None,
                   root_section := sections st\<rparr>
              else if hd sec \<noteq> CHR ''/'' then
                st\<lparr>result := Some (Assert_Failed ''*section == /'')\<rparr>
              else
                st\<lparr>section_ptr := tl sec, next_section := Some (t_strcut (tl sec) (CHR ''/''))\<rparr>)
           else st))"

definition section_errormsg :: "string \<Rightarrow> string option \<Rightarrow> nat \<Rightarrow> string" where
  "section_errormsg errormsg p l =
     errormsg @ '' (section changed in '' @ (case p of None \<Rightarrow> ''(null)'' | Some q \<Rightarrow> q) @
     '' at line '' @ string_of_nat l @ '')''"

definition section_begin ::
  "'c callbacks \<Rightarrow> 'c parser_state \<Rightarrow> string \<Rightarrow> string \<Rightarrow> 'c parser_state" where
  "section_begin cb st key line =
     (case section_name line of
        (name, line') \<Rightarrow>
          (if \<not> str_begins_with line' ''{'' then
             line_done st (Some (''Expecting '' @ [CHR 0x27] @ ''='' @ [CHR 0x27]))
           else
             (let st1 = match_section (st\<lparr>sections := sections st + 1\<rparr>) name in
              if result st1 \<noteq> None then st1
              else if 0 < skip st1 then
                line_done
                  (st1\<lparr>skip := skip st1 + 1,
                       last_section_path := Some (path (hd (input st1))),
                       last_section_line := linenum (hd (input st1))\<rparr>) None
              else
                (case sect_callback cb of
                   None \<Rightarrow>
                     line_done
                       (st1\<lparr>skip := 1,
                            last_section_path := Some (path (hd (input st1))),
                            last_section_line := linenum (hd (input st1))\<rparr>) None
                 | Some f \<Rightarrow>
                     (case f (Some key) (Some name) (cb_context st1) of
                        ((ret, errormsg), c) \<Rightarrow>
                          line_done
                            (st1\<lparr>skip := (if ret then 0 else 1),
                                 cb_context := c,
                                 events := events st1 @ [Sect_Callback (Some key) (Some name)],
                                 last_section_path := Some (path (hd (input st1))),
                                 last_section_line := linenum (hd (input st1))\<rparr>)
                            (case errormsg of
                               None \<Rightarrow> None
                             | Some e \<Rightarrow>
                                 (if last_section_line st1 \<noteq> 0 then
                                    Some (section_errormsg e (last_section_path st1)
                                            (last_section_line st1))
                                  else Some e)))))))"

text \<open>Branch c): the line is \<open>}\<close>.\<close>

definition section_end :: "'c callbacks \<Rightarrow> 'c parser_state \<Rightarrow> 'c parser_state" where
  "section_end cb st =
     (if sections st = 0 then
        line_done st (Some (''Unexpected '' @ [CHR 0x27] @ ''}'' @ [CHR 0x27]))
      else if 0 < skip st then
        line_done
          (st\<lparr>skip := skip st - 1,
              last_section_path := Some (path (hd (input st))),
              last_section_line := linenum (hd (input st)),
              sections := sections st - 1\<rparr>) None
      else
        (case sect_callback cb of
           None \<Rightarrow> st\<lparr>result := Some (Assert_Failed ''sect_callback != NULL'')\<rparr>
         | Some f \<Rightarrow>
             (case f None None (cb_context st) of
                ((ret, errormsg), c) \<Rightarrow>
                  (let st1 = st\<lparr>cb_context := c,
                                events := events st @ [Sect_Callback None None]\<rparr>
                   in if root_section st = sections st \<and> errormsg = None then
                        st1\<lparr>result := Some (Returned True None)\<rparr>
                      else
                        line_done
                          (st1\<lparr>last_section_path := Some (path (hd (input st))),
                               last_section_line := linenum (hd (input st)),
                               sections := sections st - 1\<rparr>) errormsg))))"

text \<open>
  The include directive.  On success the loop is re-entered at \<open>prevfile\<close> without
  \<open>full_line\<close> being truncated.
\<close>

definition include_line ::
  "world \<Rightarrow> 'c parser_state \<Rightarrow> bool \<Rightarrow> string \<Rightarrow> 'c parser_state" where
  "include_line w st ignore_errors line =
     (case settings_include w (fix_relative_path line (hd (input st))) (input st) ignore_errors of
        (None, inputp) \<Rightarrow> st\<lparr>input := inputp\<rparr>
      | (Some errormsg, inputp) \<Rightarrow> error_exit (st\<lparr>input := inputp\<rparr>) errormsg)"

text \<open>
  A complete logical line.  \<open>buf\<close> is the buffer that \<open>line\<close> points into: the stream's
  line, or \<open>full_line\<close> after the line was appended to it.  The key runs up to white
  space, \<open>=\<close> or the end; a white byte that ends it is overwritten with NUL, in
  \<open>full_line\<close> too when that is the buffer.  A key that ends at \<open>=\<close> is not yet
  terminated when it is compared with the include keywords.
\<close>

definition dispatch ::
  "world \<Rightarrow> 'c callbacks \<Rightarrow> 'c parser_state \<Rightarrow> string \<Rightarrow> 'c parser_state" where
  "dispatch w cb st buf =
     (let line = c_str buf;
          key = takeWhile (\<lambda>c. \<not> IS_WHITE c \<and> c \<noteq> CHR ''='') line;
          r = drop (length key) line;
          white = (r \<noteq> [] \<and> IS_WHITE (hd r));
          rest = (if white then dropWhile IS_WHITE (tl r) else r);
          key_str = (if white \<or> r = [] then key else line);
          st1 = (if full_line st \<noteq> [] then
                   st\<lparr>full_line := (if white then buf[length key := CHR 0x00] else buf)\<rparr>
                 else st)
      in if key_str = ''!include_try'' \<or> key_str = ''!include'' then
           include_line w st1 (key_str = ''!include_try'') rest
         else if str_begins_with rest ''='' then assignment w cb st1 key (tl rest)
         else if key \<noteq> ''}'' \<or> rest \<noteq> [] then section_begin cb st1 key rest
         else section_end cb st1)"

text \<open>
  One physical line, after \<open>linenum\<close> was incremented.  A line that holds nothing but
  the continuation backslash makes the source read \<open>line[-1]\<close>.
\<close>

definition parse_line ::
  "world \<Rightarrow> 'c callbacks \<Rightarrow> 'c parser_state \<Rightarrow> string \<Rightarrow> 'c parser_state" where
  "parse_line w cb st l =
     (let line = dropWhile IS_WHITE l in
      if line = [] \<or> hd line = CHR ''#'' then st
      else
        (let st1 = (case comment_pos line of
                      None \<Rightarrow> st
                    | Some p \<Rightarrow>
                        (if \<not> IS_WHITE (line ! (p - 1)) then
                           st\<lparr>warnings := warnings st @
                                [(path (hd (input st)), linenum (hd (input st)))]\<rparr>
                         else st));
             line1 = rtrim (case comment_pos line of None \<Rightarrow> line | Some p \<Rightarrow> take p line)
         in if line1 \<noteq> [] \<and> last line1 = CHR 0x5C then
              (if butlast line1 = [] then st1\<lparr>result := Some Out_Of_Bounds\<rparr>
               else st1\<lparr>full_line := full_line st1 @ rtrim (butlast line1) @ '' ''\<rparr>)
            else if full_line st1 \<noteq> [] then dispatch w cb st1 (full_line st1 @ line1)
            else dispatch w cb st1 line1))"

text \<open>
  One pass through the loop at \<open>prevfile\<close>: read a line of the top frame, or at its
  end pop the frame and go on with the previous one, or return when there is none.
\<close>

definition step :: "world \<Rightarrow> 'c callbacks \<Rightarrow> 'c parser_state \<Rightarrow> 'c parser_state" where
  "step w cb st =
     (if result st \<noteq> None then st
      else
        (case input st of
           [] \<Rightarrow> st\<lparr>result := Some (Returned True None)\<rparr>
         | f # prev \<Rightarrow>
             (case stream f of
                [] \<Rightarrow>
                  (if prev = [] then st\<lparr>input := [], result := Some (Returned True None)\<rparr>
                   else st\<lparr>input := prev\<rparr>)
              | l # ls \<Rightarrow>
                  parse_line w cb
                    (st\<lparr>input := f\<lparr>stream := ls, linenum := linenum f + 1\<rparr> # prev\<rparr>)
                    (c_str l))))"

fun run :: "nat \<Rightarrow> world \<Rightarrow> 'c callbacks \<Rightarrow> 'c parser_state \<Rightarrow> 'c parser_state" where
  "run 0 w cb st = st"
| "run (Suc n) w cb st = run n w cb (step w cb st)"

text \<open>
  \<open>settings_read_i\<close>: the state after \<open>n\<close> passes through the loop.  The function has
  returned once \<open>result\<close> is set, and later passes change nothing.
\<close>

definition initial_state :: "string \<Rightarrow> string list \<Rightarrow> string option \<Rightarrow> 'c \<Rightarrow> 'c parser_state" where
  "initial_state p content sel c =
     \<lparr>input = [\<lparr>path = p, stream = content, linenum = 0\<rparr>],
      full_line = [],
      skip = (case sel of None \<Rightarrow> 0 | Some s \<Rightarrow> 1),
      sections = 0,
      root_section = 0,
      section_ptr = (case sel of None \<Rightarrow> [] | Some s \<Rightarrow> s),
      next_section = (case sel of None \<Rightarrow> None | Some s \<Rightarrow> Some (t_strcut s (CHR ''/''))),
      last_section_path = None,
      last_section_line = 0,
      cb_context = c,
      events = [],
      warnings = [],
      result = None\<rparr>"

definition settings_read_i ::
  "world \<Rightarrow> 'c callbacks \<Rightarrow> string \<Rightarrow> string option \<Rightarrow> 'c \<Rightarrow> nat \<Rightarrow> 'c parser_state" where
  "settings_read_i w cb p sel c n =
     (case sys_open w p of
        Inl e \<Rightarrow>
          (initial_state p [] sel c)
            \<lparr>input := [],
             result := Some (Returned False (Some
               (''Can't open configuration file '' @ p @ '': '' @ strerror e)))\<rparr>
      | Inr content \<Rightarrow> run n w cb (initial_state p content sel c))"

section \<open>Concrete configurations\<close>

text \<open>
  A world made of a list of files: \<open>open\<close> finds exactly the listed paths, \<open>glob\<close>
  matches a pattern that is the path of a listed file with that file alone, and the
  environment is empty.
\<close>

definition file_world :: "(string \<times> string list) list \<Rightarrow> world" where
  "file_world files =
     \<lparr>sys_open = (\<lambda>p. case map_of files p of None \<Rightarrow> Inl ENOENT | Some content \<Rightarrow> Inr content),
      have_glob = True,
      sys_glob = (\<lambda>pattern. case map_of files pattern of
                               None \<Rightarrow> GLOB_NOMATCH
                             | Some content \<Rightarrow> Glob_Ok [pattern]),
      sys_getenv = (\<lambda>name. None)\<rparr>"

text \<open>Callbacks that accept every line and every section.\<close>

definition accept_all :: "unit callbacks" where
  "accept_all =
     \<lparr>callback = (\<lambda>key v c. (None, c)),
      sect_callback = Some (\<lambda>type name c. ((True, None), c))\<rparr>"

text \<open>Callbacks that accept every section and answer \<open>nope\<close> to \<open>key = v\<close>.\<close>

definition nope_callbacks :: "unit callbacks" where
  "nope_callbacks =
     \<lparr>callback = (\<lambda>key v c. (if key = ''key'' \<and> v = ''v'' then Some ''nope'' else None, c)),
      sect_callback = Some (\<lambda>type name c. ((True, None), c))\<rparr>"

text \<open>Callbacks that accept everything and record each key and value in the context.\<close>

definition recording :: "(string \<times> string) list callbacks" where
  "recording =
     \<lparr>callback = (\<lambda>key v c. (None, c @ [(key, v)])),
      sect_callback = Some (\<lambda>type name c. ((True, None), c))\<rparr>"

text \<open>The two physical lines \<open>a = 1 \\<close> and \<open>   2 # trailing\<close>.\<close>

definition continuation_conf :: "string list" where
  "continuation_conf = [''a = 1 '' @ [CHR 0x5C], ''   2 # trailing'']"

text \<open>
  A world in which \<open>x.conf\<close> exists but cannot be read: \<open>glob\<close> finds it and
  \<open>open\<close> fails with \<open>EACCES\<close>.  The root file \<open>p\<close> includes it tolerantly.
\<close>

definition denied_world :: world where
  "denied_world =
     \<lparr>sys_open = (\<lambda>p. if p = ''p'' then Inr [''!include_try x.conf'', ''k = 1'']
                       else if p = ''x.conf'' then Inl EACCES else Inl ENOENT),
      have_glob = True,
      sys_glob = (\<lambda>pattern. if pattern = ''x.conf'' then Glob_Ok [''x.conf''] else GLOB_NOMATCH),
      sys_getenv = (\<lambda>name. None)\<rparr>"


text \<open>Two files that include each other, and a file with sections \<open>a\<close> and \<open>b\<close> side by side.\<close>

definition cycle_files :: "(string \<times> string list) list" where
  "cycle_files =
     [(''a.conf'', [''!include b.conf'', ''i = 0'']),
      (''b.conf'', [''k = 1'', ''!include a.conf'', ''j = 2''])]"


section \<open>Notions used in the statements\<close>


text \<open>
  Environment expansion as the specification words it, scanning the value from left
  to right: \<open>at_start\<close> says that the scan is at the start of the value or just
  after a white byte.  There an occurrence of \<open>$ENV:NAME\<close> is replaced by the
  environment's value of \<open>NAME\<close> (nothing when unset), where \<open>NAME\<close> ends at the next
  space or at the end of the value; every other byte is copied.
\<close>

function expand_spec :: "(string \<Rightarrow> string option) \<Rightarrow> bool \<Rightarrow> string \<Rightarrow> string" where
  "expand_spec getenv at_start [] = []"
| "expand_spec getenv at_start (c # cs) =
     (if at_start \<and> str_begins_with (c # cs) ''$ENV:'' then
        (case getenv (takeWhile (\<lambda>x. x \<noteq> CHR '' '') (drop 5 (c # cs))) of
           None \<Rightarrow> []
         | Some envval \<Rightarrow> envval) @
        expand_spec getenv False (dropWhile (\<lambda>x. x \<noteq> CHR '' '') (drop 5 (c # cs)))
      else c # expand_spec getenv (IS_WHITE c) cs)"
  by pat_completeness auto
termination
proof (relation "measure (\<lambda>(getenv, at_start, s). length s)", goal_cases)
  case 1
  show ?case by simp
next
  case (2 getenv at_start c cs)
  have "length (dropWhile (\<lambda>x. x \<noteq> CHR '' '') (drop 5 (c # cs))) \<le> length (drop 5 (c # cs))"
    by (rule length_dropWhile_le)
  then show ?case by simp
next
  case (3 getenv at_start c cs)
  show ?case by simp
qed

text \<open>A world whose environment sets \<open>HOME\<close> to \<open>/root\<close> and nothing else.\<close>

definition env_world :: world where
  "env_world =
     \<lparr>sys_open = (\<lambda>p. Inl ENOENT),
      have_glob = True,
      sys_glob = (\<lambda>pattern. GLOB_NOMATCH),
      sys_getenv = (\<lambda>name. if name = ''HOME'' then Some ''/root'' else None)\<rparr>"

text \<open>
  The logical line that a physical line completes, as the loop hands it to the dispatch:
  the line without its leading white space, its comment and its trailing white space,
  appended to what earlier continuation lines left in the line buffer \<open>full\<close>.  There
  is none for an empty line, for a comment line and for a line that ends in a
  continuation backslash.
\<close>

definition logical_line :: "string \<Rightarrow> string \<Rightarrow> string option" where
  "logical_line full l =
     (let line = dropWhile IS_WHITE l in
      if line = [] \<or> hd line = CHR ''#'' then None
      else
        (let line1 = rtrim (case comment_pos line of None \<Rightarrow> line | Some p \<Rightarrow> take p line)
         in if line1 \<noteq> [] \<and> last line1 = CHR 0x5C then None else Some (full @ line1)))"

text \<open>
  The value that is delivered for the text \<open>v\<close> of an assignment, as the specification
  words it: a value that begins and ends with the same quote character loses these two
  and is unescaped; any other value is environment-expanded.
\<close>

definition spec_value :: "(string \<Rightarrow> string option) \<Rightarrow> string \<Rightarrow> string" where
  "spec_value getenv v =
     (if v \<noteq> [] \<and> hd v = last v \<and> (hd v = CHR 0x22 \<or> hd v = CHR 0x27)
      then str_unescape (butlast (tl v))
      else expand_spec getenv True v)"

text \<open>
  The comment scan of a line ends inside a quote: it meets an opening quote, and the
  search for the closing one reaches the end of the line.  Quoted parts that are closed
  are stepped over, and a \<open>#\<close> outside of them ends the scan before.
\<close>

function unterminated :: "string \<Rightarrow> bool" where
  "unterminated [] = False"
| "unterminated (c # cs) =
     (if c = CHR 0x27 \<or> c = CHR 0x22 then
        (let n = scan_quoted c cs in
         if length cs \<le> n then True else unterminated (drop (n + 1) cs))
      else if c = CHR ''#'' then False
      else unterminated cs)"
  by pat_completeness auto
termination
  by (relation "measure length") auto

text \<open>The bytes a key is made of: it runs up to white space or \<open>=\<close>.\<close>

definition key_bytes :: "string \<Rightarrow> bool" where
  "key_bytes key = list_all (\<lambda>c. \<not> IS_WHITE c \<and> c \<noteq> CHR ''='') key"


text \<open>
  What \<open>get_uint\<close> returns for a value \<open>v\<close> in which \<open>%i\<close> has read a sign and a
  magnitude: the \<open>long\<close> of \<open>strtol\<close> is stored into \<open>num\<close>, and a negative \<open>num\<close> is
  refused.
\<close>

definition uint_of :: "string \<Rightarrow> bool \<Rightarrow> nat \<Rightarrow> uint_result" where
  "uint_of v neg m =
     (let num = int_of_long (strtol_value neg m) in
      if num < 0 then Invalid_Number (''Invalid number: '' @ v) else Uint (nat num))"

text \<open>The optional sign in front of a literal.\<close>

definition is_sign :: "string \<Rightarrow> bool" where
  "is_sign sg = (sg = [] \<or> sg = ''+'' \<or> sg = ''-'')"


text \<open>
  The integer literals of C as they stand at the head of a text \<open>ds @ rest\<close>: decimal
  digits \<open>ds\<close> that do not start with \<open>0\<close>; octal digits \<open>ds\<close> after a \<open>0\<close> that is not
  followed by \<open>x\<close>; hexadecimal digits \<open>ds\<close>, possibly none, after \<open>0x\<close> or \<open>0X\<close>.  In
  each case \<open>ds\<close> are all the digits there are, so \<open>rest\<close> does not start with one.
  \<open>no_literal\<close>: the text does not start with a decimal digit, nor, where no sign was
  read, with white space or a sign.
\<close>

definition decimal_literal :: "string \<Rightarrow> string \<Rightarrow> bool" where
  "decimal_literal ds rest =
     (ds \<noteq> [] \<and> list_all (is_digit 10) ds \<and> hd ds \<noteq> CHR ''0'' \<and>
      (rest = [] \<or> \<not> is_digit 10 (hd rest)))"

definition octal_literal :: "string \<Rightarrow> string \<Rightarrow> bool" where
  "octal_literal ds rest =
     (list_all (is_digit 8) ds \<and> (rest = [] \<or> \<not> is_digit 8 (hd rest)) \<and>
      \<not> str_begins_with (ds @ rest) ''x'' \<and> \<not> str_begins_with (ds @ rest) ''X'')"

definition hex_literal :: "char \<Rightarrow> string \<Rightarrow> string \<Rightarrow> bool" where
  "hex_literal x ds rest =
     ((x = CHR ''x'' \<or> x = CHR ''X'') \<and> list_all (is_digit 16) ds \<and>
      (rest = [] \<or> \<not> is_digit 16 (hd rest)))"

definition no_literal :: "string \<Rightarrow> string \<Rightarrow> bool" where
  "no_literal sg rest =
     ((rest = [] \<or> \<not> is_digit 10 (hd rest)) \<and>
      (sg = [] \<longrightarrow>
         rest = [] \<or> (\<not> isspace (hd rest) \<and> hd rest \<noteq> CHR ''+'' \<and> hd rest \<noteq> CHR ''-'')))"

text \<open>The invariant of the loop that the proofs below carry through a parse.\<close>

definition untargeted :: "'c \<Rightarrow> 'c parser_state \<Rightarrow> bool" where
  "untargeted c st =
     (0 \<le> sections st \<and>
      (next_section st \<noteq> None \<longrightarrow>
         events st = [] \<and> cb_context st = c \<and> (result st = None \<longrightarrow> skip st = sections st + 1)))"

section \<open>Properties\<close>

declare string_of_nat.simps [simp del]

declare expand_loop.simps [simp del]

subsection \<open>Invariants of the loop\<close>

text \<open>
  The section depth is never negative.  While a selector is still being matched
  (\<open>next_section\<close> is not NULL) nothing has been dispatched and \<open>skip\<close> is one more than
  the section depth.
\<close>

lemma untargeted_line_done: "untargeted c st \<Longrightarrow> untargeted c (line_done st e)"
  by (simp add: untargeted_def line_done_def error_exit_def split: option.splits)

lemma untargeted_assignment:
  "untargeted c st \<Longrightarrow> result st = None \<Longrightarrow> untargeted c (assignment w cb st key line)"
  by (auto simp add: untargeted_def assignment_def Let_def line_done_def error_exit_def
      split: prod.splits option.splits)

lemma untargeted_include_line:
  "untargeted c st \<Longrightarrow> untargeted c (include_line w st ign line)"
  by (simp add: untargeted_def include_line_def error_exit_def split: prod.splits option.splits)

lemma untargeted_section_begin:
  "untargeted c st \<Longrightarrow> result st = None \<Longrightarrow> untargeted c (section_begin cb st key line)"
  by (auto simp add: untargeted_def section_begin_def match_section_def Let_def line_done_def
      error_exit_def split: prod.splits option.splits if_splits)

lemma untargeted_section_end:
  "untargeted c st \<Longrightarrow> result st = None \<Longrightarrow> untargeted c (section_end cb st)"
  by (auto simp add: untargeted_def section_end_def Let_def line_done_def
      error_exit_def split: prod.splits option.splits if_splits)

lemma untargeted_full_line:
  "untargeted c st \<Longrightarrow> untargeted c (st\<lparr>full_line := b\<rparr>)"
  by (simp add: untargeted_def)

lemma untargeted_warnings:
  "untargeted c st \<Longrightarrow> untargeted c (st\<lparr>warnings := b\<rparr>)"
  by (simp add: untargeted_def)

lemma untargeted_input:
  "untargeted c st \<Longrightarrow> untargeted c (st\<lparr>input := i\<rparr>)"
  by (simp add: untargeted_def)

lemma untargeted_dispatch:
  "untargeted c st \<Longrightarrow> result st = None \<Longrightarrow> untargeted c (dispatch w cb st buf)"
  by (simp add: dispatch_def Let_def untargeted_include_line untargeted_assignment
      untargeted_section_begin untargeted_section_end untargeted_full_line)

lemma untargeted_parse_line:
  "untargeted c st \<Longrightarrow> result st = None \<Longrightarrow> untargeted c (parse_line w cb st l)"
  by (simp add: parse_line_def Let_def untargeted_dispatch untargeted_warnings untargeted_full_line
      split: option.splits) (simp add: untargeted_def)

lemma untargeted_step:
  assumes "untargeted c st"
  shows "untargeted c (step w cb st)"
proof (cases "result st = None")
  case False
  with assms show ?thesis
    by (simp add: step_def)
next
  case running: True
  show ?thesis
  proof (cases "input st")
    case Nil
    with running assms show ?thesis
      by (simp add: step_def untargeted_def)
  next
    case (Cons f prev)
    note stack = this
    show ?thesis
    proof (cases "stream f")
      case Nil
      with running stack assms show ?thesis
        by (simp add: step_def untargeted_def)
    next
      case (Cons l ls)
      let ?st = "st\<lparr>input := f\<lparr>stream := ls, linenum := linenum f + 1\<rparr> # prev\<rparr>"
      have "untargeted c ?st"
        using assms by (rule untargeted_input)
      moreover have "result ?st = None"
        using running by simp
      ultimately have "untargeted c (parse_line w cb ?st (c_str l))"
        by (rule untargeted_parse_line)
      with running stack Cons show ?thesis
        by (simp add: step_def)
    qed
  qed
qed

lemma untargeted_run:
  "untargeted c st \<Longrightarrow> untargeted c (run n w cb st)"
  by (induction n arbitrary: st) (simp_all add: untargeted_step)

lemma untargeted_initial: "untargeted c (initial_state p content sel c)"
  by (simp add: untargeted_def initial_state_def split: option.splits)

lemma untargeted_settings_read_i: "untargeted c (settings_read_i w cb p sel c n)"
proof (cases "sys_open w p")
  case (Inl e)
  then show ?thesis
    using untargeted_initial [of c p "[]" sel]
    by (simp add: settings_read_i_def untargeted_def)
next
  case (Inr content)
  then show ?thesis
    by (simp add: settings_read_i_def untargeted_run untargeted_initial)
qed

subsection \<open>Pushing included files\<close>


subsection \<open>Environment expansion\<close>

lemma strchr_from_here:
  "i < length v \<Longrightarrow> v ! i = c \<Longrightarrow> strchr_from v i c = Some i"
  by (simp add: Cons_nth_drop_Suc [symmetric])

lemma strchr_from_next:
  assumes "i < length v" and "v ! i \<noteq> c"
  shows "strchr_from v i c = strchr_from v (Suc i) c"
proof -
  have d: "drop i v = v ! i # drop (Suc i) v"
    using assms by (simp add: Cons_nth_drop_Suc)
  have "c \<in> set (drop (Suc i) v)"
    if "dropWhile (\<lambda>x. x \<noteq> c) (drop (Suc i) v) = x # xs" for x xs
  proof -
    from that hd_dropWhile [of "\<lambda>x. x \<noteq> c" "drop (Suc i) v"] have "x = c"
      by simp
    moreover have "x \<in> set (dropWhile (\<lambda>x. x \<noteq> c) (drop (Suc i) v))"
      using that by simp
    ultimately show ?thesis
      by (blast dest: set_dropWhileD)
  qed
  then show ?thesis
    using assms by (auto simp add: d split: list.split)
qed

lemma strchr_from_end:
  "length v \<le> i \<Longrightarrow> strchr_from v i c = None"
  by simp

declare strchr_from.simps [simp del]

lemma expand_spec_other:
  "c \<noteq> CHR ''$'' \<Longrightarrow> expand_spec getenv b (c # cs) = c # expand_spec getenv (IS_WHITE c) cs"
  by (simp add: str_begins_with_def)

lemma expand_spec_plain:
  "\<not> (b \<and> str_begins_with (c # cs) ''$ENV:'') \<Longrightarrow>
   expand_spec getenv b (c # cs) = c # expand_spec getenv (IS_WHITE c) cs"
  by auto

lemma expand_spec_env:
  "expand_spec getenv True (''$ENV:'' @ r) =
     (case getenv (takeWhile (\<lambda>x. x \<noteq> CHR '' '') r) of None \<Rightarrow> [] | Some envval \<Rightarrow> envval) @
     expand_spec getenv False (dropWhile (\<lambda>x. x \<noteq> CHR '' '') r)"
  by (simp add: str_begins_with_def)

declare expand_spec.simps(2) [simp del]

lemma expand_loop_other:
  assumes "i < length v" and "v ! i \<noteq> CHR ''$''"
  shows "expand_loop getenv v i = v ! i # expand_loop getenv v (Suc i)"
proof (cases "strchr_from v (Suc i) (CHR ''$'')")
  case None
  then have "strchr_from v i (CHR ''$'') = None"
    using assms strchr_from_next [of i v "CHR ''$''"] by simp
  with None assms show ?thesis
    by (simp add: expand_loop.simps [of getenv v i] expand_loop.simps [of getenv v "Suc i"]
        Cons_nth_drop_Suc)
next
  case (Some p)
  then have here: "strchr_from v i (CHR ''$'') = Some p"
    using assms strchr_from_next [of i v "CHR ''$''"] by simp
  from strchr_from_Some [OF Some] have p: "Suc i \<le> p" "p < length v"
    by simp_all
  have d: "drop i v = v ! i # drop (Suc i) v"
    using assms by (simp add: Cons_nth_drop_Suc)
  have "p - i = Suc (p - Suc i)"
    using p by arith
  then have "take (p - i) (drop i v) = v ! i # take (p - Suc i) (drop (Suc i) v)"
    by (simp add: d)
  with here Some p show ?thesis
    by (simp add: expand_loop.simps [of getenv v i] expand_loop.simps [of getenv v "Suc i"])
qed


lemma begins_env_split:
  assumes "str_begins_with s ''$ENV:''"
  shows "s = ''$ENV:'' @ drop 5 s"
proof -
  have "length ''$ENV:'' = 5"
    by simp
  with assms have "take 5 s = ''$ENV:''"
    unfolding str_begins_with_def by (simp only:)
  then show ?thesis
    by (metis append_take_drop_id)
qed


lemma expand_loop_end:
  "length v \<le> i \<Longrightarrow> expand_loop getenv v i = []"
  by (simp add: expand_loop.simps [of getenv v i] strchr_from_end)

lemma expand_loop_spec:
  "i \<le> length v \<Longrightarrow>
   expand_loop getenv v i = expand_spec getenv (i = 0 \<or> IS_WHITE (v ! (i - 1))) (drop i v)"
proof (induction "length v - i" arbitrary: i rule: less_induct)
  case less
  show ?case
  proof (cases "i < length v")
    case False
    with less.prems show ?thesis
      by (simp add: expand_loop_end)
  next
    case inside: True
    have d: "drop i v = v ! i # drop (Suc i) v"
      using inside by (simp add: Cons_nth_drop_Suc)
    have IH: "expand_loop getenv v j = expand_spec getenv (j = 0 \<or> IS_WHITE (v ! (j - 1))) (drop j v)"
      if "i < j" and "j \<le> length v" for j
      using less.hyps [of j] that inside by simp
    show ?thesis
    proof (cases "v ! i = CHR ''$''")
      case False
      from IH [of "Suc i"] inside
      have "expand_loop getenv v (Suc i) = expand_spec getenv (IS_WHITE (v ! i)) (drop (Suc i) v)"
        by simp
      with False inside show ?thesis
        by (simp add: expand_loop_other d expand_spec_other)
    next
      case dollar: True
      have here: "strchr_from v i (CHR ''$'') = Some i"
        using inside dollar by (rule strchr_from_here)
      have nw: "\<not> IS_WHITE (CHR ''$'')"
        by (simp add: IS_WHITE_def)
      show ?thesis
      proof (cases "(i = 0 \<or> IS_WHITE (v ! (i - 1))) \<and> str_begins_with (drop i v) ''$ENV:''")
        case False
        from IH [of "Suc i"] inside dollar nw
        have next_eq: "expand_loop getenv v (Suc i) = expand_spec getenv False (drop (Suc i) v)"
          by simp
        have "expand_loop getenv v i = CHR ''$'' # expand_loop getenv v (Suc i)"
          using False here by (auto simp add: expand_loop.simps [of getenv v i])
        moreover have "expand_spec getenv (i = 0 \<or> IS_WHITE (v ! (i - 1))) (drop i v) =
            CHR ''$'' # expand_spec getenv False (drop (Suc i) v)"
        proof -
          have "\<not> ((i = 0 \<or> IS_WHITE (v ! (i - 1))) \<and>
                  str_begins_with (v ! i # drop (Suc i) v) ''$ENV:'')"
            using False by (simp add: d)
          from expand_spec_plain [OF this] dollar nw show ?thesis
            by (simp add: d)
        qed
        ultimately show ?thesis
          using next_eq by simp
      next
        case env: True
        define r where "r = drop (i + 5) v"
        have "drop 5 (drop i v) = r"
          by (simp add: r_def add.commute)
        with env begins_env_split [of "drop i v"] have dr: "drop i v = ''$ENV:'' @ r"
          by simp
        have dw: "dropWhile (\<lambda>x. x \<noteq> CHR '' '') (drop i v) = dropWhile (\<lambda>x. x \<noteq> CHR '' '') r"
          and tw: "takeWhile (\<lambda>x. x \<noteq> CHR '' '') (drop i v) =
                     ''$ENV:'' @ takeWhile (\<lambda>x. x \<noteq> CHR '' '') r"
          by (simp_all add: dr)
        have spec: "expand_spec getenv (i = 0 \<or> IS_WHITE (v ! (i - 1))) (drop i v) =
            (case getenv (takeWhile (\<lambda>x. x \<noteq> CHR '' '') r) of None \<Rightarrow> [] | Some envval \<Rightarrow> envval) @
            expand_spec getenv False (dropWhile (\<lambda>x. x \<noteq> CHR '' '') r)"
          using env expand_spec_env [of getenv r] by (simp add: dr)
        show ?thesis
        proof (cases "dropWhile (\<lambda>x. x \<noteq> CHR '' '') r")
          case Nil
          then have all: "takeWhile (\<lambda>x. x \<noteq> CHR '' '') r = r"
            by (metis append_Nil2 takeWhile_dropWhile_id)
          have "strchr_from v i (CHR '' '') = None"
            by (simp add: strchr_from.simps dw Nil)
          then have "expand_loop getenv v i =
              (case getenv r of None \<Rightarrow> [] | Some envval \<Rightarrow> envval)"
            using env here by (simp add: expand_loop.simps [of getenv v i] r_def)
          with spec Nil all show ?thesis
            by simp
        next
          case (Cons x xs)
          define e where "e = i + 5 + length (takeWhile (\<lambda>x. x \<noteq> CHR '' '') r)"
          have se: "strchr_from v i (CHR '' '') = Some e"
            by (simp add: strchr_from.simps dw tw Cons e_def)
          from strchr_from_Some [OF se] have e_le: "e < length v"
            by simp
          have x: "x = CHR '' ''"
            using hd_dropWhile [of "\<lambda>x. x \<noteq> CHR '' ''" r] Cons by simp
          have drop_e: "drop e v = x # xs"
            using Cons by (simp add: e_def r_def dropWhile_eq_drop add.commute)
          have take_e: "take (e - (i + 5)) (drop (i + 5) v) = takeWhile (\<lambda>x. x \<noteq> CHR '' '') r"
          proof -
            have "e - (i + 5) = length (takeWhile (\<lambda>x. x \<noteq> CHR '' '') r)"
              by (simp add: e_def)
            moreover have "take (length (takeWhile (\<lambda>x. x \<noteq> CHR '' '') r)) r =
                takeWhile (\<lambda>x. x \<noteq> CHR '' '') r"
              by (rule takeWhile_eq_take [symmetric])
            ultimately show ?thesis
              by (simp only: r_def)
          qed
          have "i < e"
            by (simp add: e_def)
          with IH [of e] e_le
          have "expand_loop getenv v e =
              expand_spec getenv (e = 0 \<or> IS_WHITE (v ! (e - 1))) (x # xs)"
            by (simp add: drop_e)
          then have loop_e: "expand_loop getenv v e = expand_spec getenv False (x # xs)"
            using x by (simp add: expand_spec_other)
          have "expand_loop getenv v i =
              (case getenv (takeWhile (\<lambda>x. x \<noteq> CHR '' '') r) of None \<Rightarrow> [] | Some envval \<Rightarrow> envval) @
              expand_loop getenv v e"
            using env here se by (simp add: expand_loop.simps [of getenv v i] take_e)
          with spec Cons loop_e show ?thesis
            by simp
        qed
      qed
    qed
  qed
qed

lemma expand_environment_vars_loop:
  "expand_environment_vars getenv v = expand_loop getenv v 0"
proof (cases "strchr_from v 0 (CHR ''$'')")
  case None
  then show ?thesis
    by (simp add: expand_environment_vars_def expand_loop.simps [of getenv v 0])
next
  case (Some p)
  from strchr_from_Some [OF Some] have "strchr_from v p (CHR ''$'') = Some p"
    by (simp add: strchr_from_here)
  with Some show ?thesis
    by (simp add: expand_environment_vars_def expand_loop.simps [of getenv v 0]
        expand_loop.simps [of getenv v p])
qed

lemma expand_environment_vars_spec:
  "expand_environment_vars getenv v = expand_spec getenv True v"
  by (simp add: expand_environment_vars_loop expand_loop_spec)

subsection \<open>Logical lines and their dispatch\<close>

lemma step_reads:
  "result st = None \<Longrightarrow> input st = f # prev \<Longrightarrow> stream f = l # ls \<Longrightarrow>
   step w cb st =
     parse_line w cb (st\<lparr>input := f\<lparr>stream := ls, linenum := linenum f + 1\<rparr> # prev\<rparr>) (c_str l)"
  by (simp add: step_def)

lemma step_pops:
  "result st = None \<Longrightarrow> input st = f # g # prev \<Longrightarrow> stream f = [] \<Longrightarrow>
   step w cb st = st\<lparr>input := g # prev\<rparr>"
  by (simp add: step_def)

lemma parse_line_cases:
  assumes "line = dropWhile IS_WHITE l"
    and "st1 = (case comment_pos line of
                  None \<Rightarrow> st
                | Some p \<Rightarrow>
                    (if \<not> IS_WHITE (line ! (p - 1)) then
                       st\<lparr>warnings := warnings st @
                            [(path (hd (input st)), linenum (hd (input st)))]\<rparr>
                     else st))"
    and "line1 = rtrim (case comment_pos line of None \<Rightarrow> line | Some p \<Rightarrow> take p line)"
  shows "parse_line w cb st l =
     (if line = [] \<or> hd line = CHR ''#'' then st
      else if line1 \<noteq> [] \<and> last line1 = CHR 0x5C then
        (if butlast line1 = [] then st1\<lparr>result := Some Out_Of_Bounds\<rparr>
         else st1\<lparr>full_line := full_line st1 @ rtrim (butlast line1) @ '' ''\<rparr>)
      else if full_line st1 \<noteq> [] then dispatch w cb st1 (full_line st1 @ line1)
      else dispatch w cb st1 line1)"
  unfolding assms parse_line_def Let_def by (rule refl)

lemma dispatch_cases:
  assumes "line = c_str buf"
    and "key = takeWhile (\<lambda>c. \<not> IS_WHITE c \<and> c \<noteq> CHR ''='') line"
    and "r = drop (length key) line"
    and "white = (r \<noteq> [] \<and> IS_WHITE (hd r))"
    and "rest = (if white then dropWhile IS_WHITE (tl r) else r)"
    and "key_str = (if white \<or> r = [] then key else line)"
    and "st1 = (if full_line st \<noteq> [] then
                  st\<lparr>full_line := (if white then buf[length key := CHR 0x00] else buf)\<rparr>
                else st)"
  shows "dispatch w cb st buf =
     (if key_str = ''!include_try'' \<or> key_str = ''!include'' then
        include_line w st1 (key_str = ''!include_try'') rest
      else if str_begins_with rest ''='' then assignment w cb st1 key (tl rest)
      else if key \<noteq> ''}'' \<or> rest \<noteq> [] then section_begin cb st1 key rest
      else section_end cb st1)"
  unfolding assms dispatch_def Let_def by (rule refl)

lemma parse_line_logical:
  assumes "logical_line (full_line st) l = Some buf"
  shows "\<exists>ws. parse_line w cb st l = dispatch w cb (st\<lparr>warnings := ws\<rparr>) buf"
proof -
  define line where "line = dropWhile IS_WHITE l"
  define st1 where "st1 = (case comment_pos line of
                  None \<Rightarrow> st
                | Some p \<Rightarrow>
                    (if \<not> IS_WHITE (line ! (p - 1)) then
                       st\<lparr>warnings := warnings st @
                            [(path (hd (input st)), linenum (hd (input st)))]\<rparr>
                     else st))"
  define line1 where
    "line1 = rtrim (case comment_pos line of None \<Rightarrow> line | Some p \<Rightarrow> take p line)"
  have "logical_line (full_line st) l =
      (if line = [] \<or> hd line = CHR ''#'' then None
       else if line1 \<noteq> [] \<and> last line1 = CHR 0x5C then None
       else Some (full_line st @ line1))"
    unfolding logical_line_def Let_def line1_def line_def by (rule refl)
  with assms have a: "\<not> (line = [] \<or> hd line = CHR ''#'')"
    and b: "\<not> (line1 \<noteq> [] \<and> last line1 = CHR 0x5C)" and c: "buf = full_line st @ line1"
    by (simp_all split: if_splits)
  have fl: "full_line st1 = full_line st"
    by (simp add: st1_def split: option.splits)
  have "parse_line w cb st l =
      (if full_line st1 \<noteq> [] then dispatch w cb st1 (full_line st1 @ line1)
       else dispatch w cb st1 line1)"
    using a b by (simp only: parse_line_cases [OF line_def st1_def line1_def] if_False)
  then have "parse_line w cb st l = dispatch w cb st1 buf"
    by (simp add: fl c)
  moreover have "\<exists>ws. st1 = st\<lparr>warnings := ws\<rparr>"
  proof (cases "st1 = st")
    case True
    then have "st1 = st\<lparr>warnings := warnings st\<rparr>"
      by simp
    then show ?thesis ..
  next
    case False
    then have "st1 = st\<lparr>warnings := warnings st @
        [(path (hd (input st)), linenum (hd (input st)))]\<rparr>"
      by (simp add: st1_def split: option.splits if_splits)
    then show ?thesis ..
  qed
  ultimately show ?thesis
    by auto
qed

lemma full_line_ex:
  assumes "st1 = (if c then st\<lparr>full_line := a\<rparr> else st)"
  shows "\<exists>fl. st1 = st\<lparr>full_line := fl\<rparr>"
proof (cases c)
  case True
  with assms have "st1 = st\<lparr>full_line := a\<rparr>"
    by simp
  then show ?thesis ..
next
  case False
  with assms have "st1 = st\<lparr>full_line := full_line st\<rparr>"
    by simp
  then show ?thesis ..
qed

lemma takeWhile_key:
  assumes "key_bytes key" and "s = [] \<or> IS_WHITE (hd s) \<or> hd s = CHR ''=''"
  shows "takeWhile (\<lambda>c. \<not> IS_WHITE c \<and> c \<noteq> CHR ''='') (key @ s) = key"
proof -
  have "takeWhile (\<lambda>c. \<not> IS_WHITE c \<and> c \<noteq> CHR ''='') s = []"
    using assms(2) by (cases s) auto
  with assms(1) show ?thesis
    by (simp add: key_bytes_def takeWhile_append2 list_all_iff)
qed

lemma dropWhile_white:
  "list_all IS_WHITE ws \<Longrightarrow> s = [] \<or> \<not> IS_WHITE (hd s) \<Longrightarrow> dropWhile IS_WHITE (ws @ s) = s"
  by (cases s) (simp_all add: dropWhile_append2 list_all_iff)

lemma not_keyword_eq:
  "CHR ''='' \<in> set s \<Longrightarrow> s \<noteq> ''!include_try'' \<and> s \<noteq> ''!include''"
  by auto

lemma dispatch_assignment:
  assumes "c_str buf = key @ ws1 @ ''='' @ r" and "key_bytes key" and "list_all IS_WHITE ws1"
    and "ws1 = [] \<or> (key \<noteq> ''!include'' \<and> key \<noteq> ''!include_try'')"
  shows "\<exists>fl. dispatch w cb st buf = assignment w cb (st\<lparr>full_line := fl\<rparr>) key r"
proof -
  let ?line = "key @ ws1 @ ''='' @ r"
  define white where "white = (ws1 \<noteq> [])"
  define st1 where "st1 = (if full_line st \<noteq> [] then
                  st\<lparr>full_line := (if white then buf[length key := CHR 0x00] else buf)\<rparr>
                else st)"
  have ne: "\<not> IS_WHITE (CHR ''='')"
    by (simp add: IS_WHITE_def)
  have l: "?line = c_str buf"
    using assms(1) by simp
  have "ws1 @ ''='' @ r = [] \<or> IS_WHITE (hd (ws1 @ ''='' @ r)) \<or> hd (ws1 @ ''='' @ r) = CHR ''=''"
    using assms(3) by (cases ws1) simp_all
  from takeWhile_key [OF assms(2) this]
  have k: "key = takeWhile (\<lambda>c. \<not> IS_WHITE c \<and> c \<noteq> CHR ''='') ?line"
    by simp
  have r: "ws1 @ ''='' @ r = drop (length key) ?line"
    by simp
  have w: "white = (ws1 @ ''='' @ r \<noteq> [] \<and> IS_WHITE (hd (ws1 @ ''='' @ r)))"
    using assms(3) ne by (cases ws1) (simp_all add: white_def)
  have rest: "''='' @ r = (if white then dropWhile IS_WHITE (tl (ws1 @ ''='' @ r)) else ws1 @ ''='' @ r)"
  proof (cases ws1)
    case Nil
    then show ?thesis
      by (simp add: white_def)
  next
    case (Cons a as)
    with assms(3) have "list_all IS_WHITE as"
      by simp
    then have "dropWhile IS_WHITE (as @ ''='' @ r) = ''='' @ r"
      by (rule dropWhile_white) (simp add: ne)
    with Cons show ?thesis
      by (simp add: white_def)
  qed
  define key_str where "key_str = (if white \<or> ws1 @ ''='' @ r = [] then key else ?line)"
  have nk: "\<not> (key_str = ''!include_try'' \<or> key_str = ''!include'')"
  proof (cases white)
    case True
    with assms(4) show ?thesis
      by (auto simp add: key_str_def white_def)
  next
    case False
    then have "key_str = ?line"
      by (simp add: key_str_def)
    moreover have "CHR ''='' \<in> set ?line"
      by simp
    ultimately show ?thesis
      using not_keyword_eq [of ?line] by simp
  qed
  have beg: "str_begins_with (''='' @ r) ''=''"
    by (simp add: str_begins_with_def)
  have "dispatch w cb st buf = assignment w cb st1 key (tl (''='' @ r))"
    using nk beg by (simp only: dispatch_cases [OF l k r w rest key_str_def st1_def] if_False if_True)
  then have "dispatch w cb st buf = assignment w cb st1 key r"
    by simp
  moreover have "\<exists>fl. st1 = st\<lparr>full_line := fl\<rparr>"
    using st1_def by (rule full_line_ex)
  ultimately show ?thesis
    by auto
qed

lemma dispatch_section_end:
  assumes "c_str buf = ''}''"
  shows "\<exists>fl. dispatch w cb st buf = section_end cb (st\<lparr>full_line := fl\<rparr>)"
proof -
  define st1 where "st1 = (if full_line st \<noteq> [] then
                  st\<lparr>full_line := (if False then buf[length ''}'' := CHR 0x00] else buf)\<rparr>
                else st)"
  have l: "''}'' = c_str buf"
    using assms by simp
  have k: "''}'' = takeWhile (\<lambda>c. \<not> IS_WHITE c \<and> c \<noteq> CHR ''='') ''}''"
    by (simp add: IS_WHITE_def)
  have r: "[] = drop (length ''}'') ''}''"
    by simp
  have w: "False = (([]::string) \<noteq> [] \<and> IS_WHITE (hd []))"
    by simp
  have rest: "[] = (if False then dropWhile IS_WHITE (tl []) else ([]::string))"
    by simp
  have ks: "''}'' = (if False \<or> ([]::string) = [] then ''}'' else ''}'')"
    by simp
  have "dispatch w cb st buf = section_end cb st1"
    by (simp add: dispatch_cases [OF l k r w rest ks st1_def] str_begins_with_def)
  moreover have "\<exists>fl. st1 = st\<lparr>full_line := fl\<rparr>"
    using st1_def by (rule full_line_ex)
  ultimately show ?thesis
    by auto
qed

lemma dispatch_include:
  assumes "c_str buf = kw @ ws @ pat" and "kw = ''!include'' \<or> kw = ''!include_try''"
    and "ws \<noteq> []" and "list_all IS_WHITE ws" and "pat = [] \<or> \<not> IS_WHITE (hd pat)"
    and "full_line st = []"
  shows "dispatch w cb st buf = include_line w st (kw = ''!include_try'') pat"
proof -
  let ?line = "kw @ ws @ pat"
  from assms(3,4) obtain a as where ws: "ws = a # as" and a: "IS_WHITE a" and as: "list_all IS_WHITE as"
    by (cases ws) auto
  have kb: "key_bytes kw"
    using assms(2) by (auto simp add: key_bytes_def IS_WHITE_def)
  have l: "?line = c_str buf"
    using assms(1) by simp
  have "ws @ pat = [] \<or> IS_WHITE (hd (ws @ pat)) \<or> hd (ws @ pat) = CHR ''=''"
    using a by (simp add: ws)
  from takeWhile_key [OF kb this]
  have k: "kw = takeWhile (\<lambda>c. \<not> IS_WHITE c \<and> c \<noteq> CHR ''='') ?line"
    by simp
  have r: "ws @ pat = drop (length kw) ?line"
    by simp
  have w: "True = (ws @ pat \<noteq> [] \<and> IS_WHITE (hd (ws @ pat)))"
    using a by (simp add: ws)
  have "dropWhile IS_WHITE (as @ pat) = pat"
    using as assms(5) by (rule dropWhile_white)
  then have rest: "pat = (if True then dropWhile IS_WHITE (tl (ws @ pat)) else ws @ pat)"
    by (simp add: ws)
  have ks: "kw = (if True \<or> ws @ pat = [] then kw else ?line)"
    by simp
  have st1: "st = (if full_line st \<noteq> [] then
                  st\<lparr>full_line := (if True then buf[length kw := CHR 0x00] else buf)\<rparr>
                else st)"
    using assms(6) by simp
  show ?thesis
    using assms(2) by (simp only: dispatch_cases [OF l k r w rest ks st1]) auto
qed

lemma assignment_value_spec:
  "assignment_value w line = spec_value (sys_getenv w) (dropWhile IS_WHITE line)"
  by (auto simp add: assignment_value_def spec_value_def is_quoted_def Let_def
      expand_environment_vars_spec)

lemma assignment_fields:
  assumes "skip st \<le> 0" and "V = spec_value (sys_getenv w) (dropWhile IS_WHITE r)"
  shows "events (assignment w cb st key r) = events st @ [Callback key V]"
    and "cb_context (assignment w cb st key r) = snd (callback cb key V (cb_context st))"
    and "result (assignment w cb st key r) =
           (case fst (callback cb key V (cb_context st)) of
              None \<Rightarrow> result st
            | Some e \<Rightarrow> Some (Returned False (Some
                (''Error in configuration file '' @ path (hd (input st)) @ '' line '' @
                 string_of_nat (linenum (hd (input st))) @ '': '' @ e))))"
    and "input (assignment w cb st key r) = input st"
    and "skip (assignment w cb st key r) = skip st"
    and "sections (assignment w cb st key r) = sections st"
    and "warnings (assignment w cb st key r) = warnings st"
    and "fst (callback cb key V (cb_context st)) = None \<Longrightarrow>
           full_line (assignment w cb st key r) = []"
  using assms
  by (auto simp add: assignment_def Let_def assignment_value_spec line_done_def error_exit_def
      split: prod.splits option.splits)

lemma unterminated_comment_pos: "unterminated line \<Longrightarrow> comment_pos line = None"
  by (induction line rule: unterminated.induct) (auto simp add: Let_def split: if_splits)

lemma unterminated_head: "unterminated line \<Longrightarrow> line \<noteq> [] \<and> hd line \<noteq> CHR ''#''"
  by (cases line) (auto split: if_splits)

lemma logical_line_unterminated:
  assumes "unterminated (dropWhile IS_WHITE l)" and "line = rtrim (dropWhile IS_WHITE l)"
    and "line = [] \<or> last line \<noteq> CHR 0x5C"
  shows "logical_line full l = Some (full @ line)"
  using assms unterminated_head [OF assms(1)] unterminated_comment_pos [OF assms(1)]
  by (auto simp add: logical_line_def Let_def)

lemma parse_line_plain:
  assumes "logical_line (full_line st) l = Some buf" and "comment_pos (dropWhile IS_WHITE l) = None"
  shows "parse_line w cb st l = dispatch w cb st buf"
proof -
  define line where "line = dropWhile IS_WHITE l"
  define line1 where
    "line1 = rtrim (case comment_pos line of None \<Rightarrow> line | Some p \<Rightarrow> take p line)"
  have st1: "st = (case comment_pos line of
                  None \<Rightarrow> st
                | Some p \<Rightarrow>
                    (if \<not> IS_WHITE (line ! (p - 1)) then
                       st\<lparr>warnings := warnings st @
                            [(path (hd (input st)), linenum (hd (input st)))]\<rparr>
                     else st))"
    using assms(2) by (simp add: line_def)
  have "logical_line (full_line st) l =
      (if line = [] \<or> hd line = CHR ''#'' then None
       else if line1 \<noteq> [] \<and> last line1 = CHR 0x5C then None
       else Some (full_line st @ line1))"
    unfolding logical_line_def Let_def line1_def line_def by (rule refl)
  with assms have a: "\<not> (line = [] \<or> hd line = CHR ''#'')"
    and b: "\<not> (line1 \<noteq> [] \<and> last line1 = CHR 0x5C)" and c: "buf = full_line st @ line1"
    by (simp_all split: if_splits)
  have "parse_line w cb st l =
      (if full_line st \<noteq> [] then dispatch w cb st (full_line st @ line1)
       else dispatch w cb st line1)"
    using a b by (simp only: parse_line_cases [OF line_def st1 line1_def] if_False)
  then show ?thesis
    by (simp add: c)
qed

lemma step_assignment:
  assumes "result st = None" and "input st = f # prev" and "stream f = l # ls"
    and "skip st \<le> 0"
    and "logical_line (full_line st) (c_str l) = Some buf"
    and "c_str buf = key @ ws1 @ ''='' @ ws2 @ v"
    and "key_bytes key" and "list_all IS_WHITE ws1" and "list_all IS_WHITE ws2"
    and "v = [] \<or> \<not> IS_WHITE (hd v)"
    and "ws1 = [] \<or> (key \<noteq> ''!include'' \<and> key \<noteq> ''!include_try'')"
    and "V = spec_value (sys_getenv w) v"
  shows "events (step w cb st) = events st @ [Callback key V]"
    and "cb_context (step w cb st) = snd (callback cb key V (cb_context st))"
    and "result (step w cb st) =
           (case fst (callback cb key V (cb_context st)) of
              None \<Rightarrow> None
            | Some e \<Rightarrow> Some (Returned False (Some
                (''Error in configuration file '' @ path f @ '' line '' @
                 string_of_nat (linenum f + 1) @ '': '' @ e))))"
    and "input (step w cb st) = f\<lparr>stream := ls, linenum := linenum f + 1\<rparr> # prev"
    and "skip (step w cb st) = skip st"
    and "sections (step w cb st) = sections st"
    and "fst (callback cb key V (cb_context st)) = None \<Longrightarrow> full_line (step w cb st) = []"
proof -
  let ?st0 = "st\<lparr>input := f\<lparr>stream := ls, linenum := linenum f + 1\<rparr> # prev\<rparr>"
  have s: "step w cb st = parse_line w cb ?st0 (c_str l)"
    using assms(1,2,3) by (rule step_reads)
  have "logical_line (full_line ?st0) (c_str l) = Some buf"
    using assms(5) by simp
  from parse_line_logical [OF this] obtain ws
    where p: "parse_line w cb ?st0 (c_str l) = dispatch w cb (?st0\<lparr>warnings := ws\<rparr>) buf"
    by blast
  have "c_str buf = key @ ws1 @ ''='' @ (ws2 @ v)"
    using assms(6) by simp
  from dispatch_assignment [OF this assms(7,8,11)] obtain fl
    where d: "dispatch w cb (?st0\<lparr>warnings := ws\<rparr>) buf =
        assignment w cb (?st0\<lparr>warnings := ws, full_line := fl\<rparr>) key (ws2 @ v)"
    by blast
  let ?st2 = "?st0\<lparr>warnings := ws, full_line := fl\<rparr>"
  have e: "step w cb st = assignment w cb ?st2 key (ws2 @ v)"
    by (simp only: s p d)
  have "dropWhile IS_WHITE (ws2 @ v) = v"
    using assms(9,10) by (rule dropWhile_white)
  with assms(12) have V: "V = spec_value (sys_getenv w) (dropWhile IS_WHITE (ws2 @ v))"
    by simp
  have k: "skip ?st2 \<le> 0"
    using assms(4) by simp
  note af = assignment_fields [OF k V, of cb key]
  show "events (step w cb st) = events st @ [Callback key V]"
    unfolding e af(1) by simp
  show "cb_context (step w cb st) = snd (callback cb key V (cb_context st))"
    unfolding e af(2) by simp
  show "result (step w cb st) =
           (case fst (callback cb key V (cb_context st)) of
              None \<Rightarrow> None
            | Some e \<Rightarrow> Some (Returned False (Some
                (''Error in configuration file '' @ path f @ '' line '' @
                 string_of_nat (linenum f + 1) @ '': '' @ e))))"
    unfolding e af(3) using assms(1) by (simp split: option.splits)
  show "input (step w cb st) = f\<lparr>stream := ls, linenum := linenum f + 1\<rparr> # prev"
    unfolding e af(4) by simp
  show "skip (step w cb st) = skip st"
    unfolding e af(5) by simp
  show "sections (step w cb st) = sections st"
    unfolding e af(6) by simp
  show "full_line (step w cb st) = []" if "fst (callback cb key V (cb_context st)) = None"
    unfolding e using af(8) that by simp
qed

lemma step_section_end:
  assumes "result st = None" and "input st = f # prev" and "stream f = l # ls"
    and "sections st = 0"
    and "logical_line (full_line st) (c_str l) = Some buf" and "c_str buf = ''}''"
  shows "result (step w cb st) = Some (Returned False (Some
           (''Error in configuration file '' @ path f @ '' line '' @
            string_of_nat (linenum f + 1) @ '': Unexpected '' @ [CHR 0x27] @ ''}'' @
            [CHR 0x27])))"
    and "sections (step w cb st) = 0"
    and "events (step w cb st) = events st"
proof -
  let ?st0 = "st\<lparr>input := f\<lparr>stream := ls, linenum := linenum f + 1\<rparr> # prev\<rparr>"
  have s: "step w cb st = parse_line w cb ?st0 (c_str l)"
    using assms(1,2,3) by (rule step_reads)
  have "logical_line (full_line ?st0) (c_str l) = Some buf"
    using assms(5) by simp
  from parse_line_logical [OF this] obtain ws
    where p: "parse_line w cb ?st0 (c_str l) = dispatch w cb (?st0\<lparr>warnings := ws\<rparr>) buf"
    by blast
  from dispatch_section_end [OF assms(6)] obtain fl
    where d: "dispatch w cb (?st0\<lparr>warnings := ws\<rparr>) buf =
        section_end cb (?st0\<lparr>warnings := ws, full_line := fl\<rparr>)"
    by blast
  have e: "step w cb st = section_end cb (?st0\<lparr>warnings := ws, full_line := fl\<rparr>)"
    by (simp only: s p d)
  show "result (step w cb st) = Some (Returned False (Some
           (''Error in configuration file '' @ path f @ '' line '' @
            string_of_nat (linenum f + 1) @ '': Unexpected '' @ [CHR 0x27] @ ''}'' @
            [CHR 0x27])))"
    unfolding e using assms(4) by (simp add: section_end_def line_done_def error_exit_def)
  show "sections (step w cb st) = 0"
    unfolding e using assms(4) by (simp add: section_end_def line_done_def error_exit_def)
  show "events (step w cb st) = events st"
    unfolding e using assms(4) by (simp add: section_end_def line_done_def error_exit_def)
qed

lemma step_assignment_warnings:
  assumes "result st = None" and "input st = f # prev" and "stream f = l # ls"
    and "skip st \<le> 0"
    and "logical_line (full_line st) (c_str l) = Some buf"
    and "comment_pos (dropWhile IS_WHITE (c_str l)) = None"
    and "c_str buf = key @ ws1 @ ''='' @ r"
    and "key_bytes key" and "list_all IS_WHITE ws1"
    and "ws1 = [] \<or> (key \<noteq> ''!include'' \<and> key \<noteq> ''!include_try'')"
  shows "warnings (step w cb st) = warnings st"
proof -
  let ?st0 = "st\<lparr>input := f\<lparr>stream := ls, linenum := linenum f + 1\<rparr> # prev\<rparr>"
  have s: "step w cb st = parse_line w cb ?st0 (c_str l)"
    using assms(1,2,3) by (rule step_reads)
  have "logical_line (full_line ?st0) (c_str l) = Some buf"
    using assms(5) by simp
  then have p: "parse_line w cb ?st0 (c_str l) = dispatch w cb ?st0 buf"
    using assms(6) by (rule parse_line_plain)
  from dispatch_assignment [OF assms(7,8,9,10)] obtain fl
    where d: "dispatch w cb ?st0 buf = assignment w cb (?st0\<lparr>full_line := fl\<rparr>) key r"
    by blast
  have e: "step w cb st = assignment w cb (?st0\<lparr>full_line := fl\<rparr>) key r"
    by (simp only: s p d)
  have k: "skip (?st0\<lparr>full_line := fl\<rparr>) \<le> 0"
    using assms(4) by simp
  show ?thesis
    unfolding e assignment_fields(7) [OF k refl] by simp
qed

lemma unterminated_shape:
  assumes "list_all (\<lambda>c. c \<noteq> CHR ''#'' \<and> c \<noteq> CHR 0x22 \<and> c \<noteq> CHR 0x27) pre"
    and "q = CHR 0x22 \<or> q = CHR 0x27" and "length body \<le> scan_quoted q body"
  shows "unterminated (pre @ q # body)"
  using assms by (induction pre) auto

subsection \<open>Numbers\<close>

lemma digit_not_sign:
  "is_digit b c \<Longrightarrow> \<not> isspace c \<and> c \<noteq> CHR ''-'' \<and> c \<noteq> CHR ''+''"
  by (auto simp add: is_digit_def digit_val_def isspace_def Let_def split: if_splits)

lemma takeWhile_digits:
  assumes "list_all (is_digit b) ds" and "rest = [] \<or> \<not> is_digit b (hd rest)"
  shows "takeWhile (is_digit b) (ds @ rest) = ds"
proof -
  have "takeWhile (is_digit b) rest = []"
    using assms(2) by (cases rest) auto
  with assms(1) show ?thesis
    by (simp add: takeWhile_append2 list_all_iff)
qed

lemma digits_value_zero: "digits_value b (CHR ''0'' # ds) = digits_value b ds"
  by (simp add: digits_value_def digit_val_def)

lemma zero_digit: "1 < b \<Longrightarrow> is_digit b (CHR ''0'')"
  by (simp add: is_digit_def digit_val_def)

lemma scan_magnitude_decimal:
  assumes "ds \<noteq> []" and "list_all (is_digit 10) ds" and "hd ds \<noteq> CHR ''0''"
    and "rest = [] \<or> \<not> is_digit 10 (hd rest)"
  shows "scan_magnitude (ds @ rest) = Some (digits_value 10 ds)"
proof -
  from assms(1) obtain d ds' where ds: "ds = d # ds'"
    by (cases ds) auto
  have tw: "takeWhile (is_digit 10) (ds @ rest) = ds"
    using assms(2,4) by (rule takeWhile_digits)
  have "\<not> str_begins_with (ds @ rest) ''0x''" "\<not> str_begins_with (ds @ rest) ''0X''"
    "\<not> str_begins_with (ds @ rest) ''0''"
    using assms(3) by (simp_all add: ds str_begins_with_def)
  then show ?thesis
    unfolding scan_magnitude_def Let_def tw using assms(1) by simp
qed

lemma scan_magnitude_octal:
  assumes "list_all (is_digit 8) ds" and "rest = [] \<or> \<not> is_digit 8 (hd rest)"
    and "\<not> str_begins_with (ds @ rest) ''x''" and "\<not> str_begins_with (ds @ rest) ''X''"
  shows "scan_magnitude (CHR ''0'' # ds @ rest) = Some (digits_value 8 ds)"
proof -
  let ?s = "CHR ''0'' # ds @ rest"
  have tw: "takeWhile (is_digit 8) ?s = CHR ''0'' # ds"
    using takeWhile_digits [of 8 "CHR ''0'' # ds" rest] assms(1,2) by (simp add: zero_digit)
  have nx: "\<not> str_begins_with ?s ''0x''" "\<not> str_begins_with ?s ''0X''"
    using assms(3,4) by (cases "ds @ rest"; simp add: str_begins_with_def)+
  have "str_begins_with ?s ''0''"
    by (simp add: str_begins_with_def)
  with nx show ?thesis
    unfolding scan_magnitude_def Let_def tw by (simp add: digits_value_zero)
qed

lemma scan_magnitude_hex:
  assumes "x = CHR ''x'' \<or> x = CHR ''X''" and "list_all (is_digit 16) ds"
    and "rest = [] \<or> \<not> is_digit 16 (hd rest)"
  shows "scan_magnitude (CHR ''0'' # x # ds @ rest) = Some (digits_value 16 ds)"
proof -
  let ?s = "CHR ''0'' # x # ds @ rest"
  have tw: "takeWhile (is_digit 16) (drop 2 ?s) = ds"
    using takeWhile_digits [OF assms(2,3)] by simp
  have "str_begins_with ?s ''0x'' \<or> str_begins_with ?s ''0X''"
    using assms(1) by (auto simp add: str_begins_with_def)
  then show ?thesis
    unfolding scan_magnitude_def tw by simp
qed

lemma scan_magnitude_none:
  assumes "rest = [] \<or> \<not> is_digit 10 (hd rest)"
  shows "scan_magnitude rest = None"
proof (cases rest)
  case Nil
  then show ?thesis
    by (simp add: scan_magnitude_def str_begins_with_def)
next
  case (Cons c cs)
  with assms have nd: "\<not> is_digit 10 c"
    by simp
  then have "c \<noteq> CHR ''0''"
    using zero_digit [of 10] by auto
  with nd show ?thesis
    by (simp add: scan_magnitude_def str_begins_with_def Cons)
qed

lemma sscanf_i_signed:
  assumes "list_all isspace ws" and "is_sign sg"
    and "sg = [] \<longrightarrow> t = [] \<or> (\<not> isspace (hd t) \<and> hd t \<noteq> CHR ''+'' \<and> hd t \<noteq> CHR ''-'')"
  shows "sscanf_i (ws @ sg @ t) =
           (case scan_magnitude t of
              None \<Rightarrow> No_Match
            | Some m \<Rightarrow> Match (int_of_long (strtol_value (sg = ''-'') m)))"
proof -
  have sp: "\<not> isspace (CHR ''+'')" "\<not> isspace (CHR ''-'')"
    by (simp_all add: isspace_def)
  have "sg @ t = [] \<or> \<not> isspace (hd (sg @ t))"
    using assms(2,3) sp by (auto simp add: is_sign_def)
  then have "dropWhile isspace (sg @ t) = sg @ t"
    by (cases "sg @ t") auto
  with assms(1) have dw: "dropWhile isspace (ws @ sg @ t) = sg @ t"
    by (simp add: dropWhile_append2 list_all_iff)
  from assms(2) consider "sg = []" | "sg = ''+''" | "sg = ''-''"
    by (auto simp add: is_sign_def)
  then show ?thesis
  proof cases
    case 1
    with assms(3) have nb: "\<not> str_begins_with t ''-''" "\<not> str_begins_with t ''+''"
      by (cases t; auto simp add: str_begins_with_def)+
    from dw 1 have "dropWhile isspace (ws @ sg @ t) = t"
      by simp
    with nb 1 show ?thesis
      by (simp add: sscanf_i_def Let_def split: option.splits)
  next
    case 2
    with dw have "dropWhile isspace (ws @ sg @ t) = CHR ''+'' # t"
      by simp
    with 2 show ?thesis
      by (simp add: sscanf_i_def Let_def str_begins_with_def split: option.splits)
  next
    case 3
    with dw have "dropWhile isspace (ws @ sg @ t) = CHR ''-'' # t"
      by simp
    with 3 show ?thesis
      by (simp add: sscanf_i_def Let_def str_begins_with_def split: option.splits)
  qed
qed

lemma get_uint_signed:
  assumes "list_all isspace ws" and "is_sign sg"
    and "sg = [] \<longrightarrow> t = [] \<or> (\<not> isspace (hd t) \<and> hd t \<noteq> CHR ''+'' \<and> hd t \<noteq> CHR ''-'')"
  shows "get_uint (ws @ sg @ t) =
           (case scan_magnitude t of
              None \<Rightarrow> Invalid_Number (''Invalid number: '' @ ws @ sg @ t)
            | Some m \<Rightarrow> uint_of (ws @ sg @ t) (sg = ''-'') m)"
  unfolding get_uint_def sscanf_i_signed [OF assms]
  by (simp add: uint_of_def Let_def split: option.splits)

lemma digit_head:
  "is_digit b c \<Longrightarrow> sg = [] \<longrightarrow> c # t = [] \<or> (\<not> isspace (hd (c # t)) \<and> hd (c # t) \<noteq> CHR ''+'' \<and> hd (c # t) \<noteq> CHR ''-'')"
  using digit_not_sign [of b c] by simp

lemma int_of_long_id: "- 2147483648 \<le> v \<Longrightarrow> v \<le> 2147483647 \<Longrightarrow> int_of_long v = v"
proof -
  assume a: "- 2147483648 \<le> v" "v \<le> 2147483647"
  have "(v + 2147483648) mod 4294967296 = v + 2147483648"
    by (rule mod_pos_pos_trivial) (use a in linarith)+
  then show ?thesis
    by (simp only: int_of_long_def add_diff_cancel_right')
qed

lemma uint_of_in_range: "int m \<le> INT_MAX \<Longrightarrow> uint_of v False m = Uint m"
proof -
  assume "int m \<le> INT_MAX"
  then have m: "int m \<le> 2147483647"
    by (simp only: INT_MAX_def)
  then have "strtol_value False m = int m"
    by (simp add: strtol_value_def LONG_MAX_def)
  moreover have "int_of_long (int m) = int m"
    by (rule int_of_long_id) (use m in linarith)+
  ultimately show ?thesis
    by (simp add: uint_of_def Let_def)
qed

lemma uint_of_negative:
  "0 < m \<Longrightarrow> INT_MIN \<le> - int m \<Longrightarrow> uint_of v True m = Invalid_Number (''Invalid number: '' @ v)"
proof -
  assume p: "0 < m" and "INT_MIN \<le> - int m"
  then have m: "- 2147483648 \<le> - int m"
    by (simp only: INT_MIN_def)
  then have "strtol_value True m = - int m"
    by (simp add: strtol_value_def LONG_MIN_def)
  moreover have "int_of_long (- int m) = - int m"
    by (rule int_of_long_id) (use m in linarith)+
  ultimately show ?thesis
    using p by (simp add: uint_of_def Let_def)
qed

lemma int_of_long_low_bits:
  "int_of_long l = (if l mod 4294967296 < 2147483648 then l mod 4294967296
                    else l mod 4294967296 - 4294967296)"
proof -
  define r where "r = l mod 4294967296"
  have r: "0 \<le> r" "r < 4294967296"
    by (simp_all add: r_def)
  have e: "(l + 2147483648) mod 4294967296 = (r + 2147483648) mod 4294967296"
    unfolding r_def by (simp only: mod_add_left_eq)
  show ?thesis
  proof (cases "r < 2147483648")
    case True
    have "(r + 2147483648) mod 4294967296 = r + 2147483648"
      by (rule mod_pos_pos_trivial) (use r True in linarith)+
    with True show ?thesis
      unfolding int_of_long_def e r_def [symmetric] by simp
  next
    case False
    have "(r + 2147483648) mod 4294967296 = (r + 2147483648 - 4294967296) mod 4294967296"
      by (simp only: minus_mod_self2)
    also have "\<dots> = r + 2147483648 - 4294967296"
      by (rule mod_pos_pos_trivial) (use r False in linarith)+
    finally show ?thesis
      using False unfolding int_of_long_def e r_def [symmetric] by simp
  qed
qed

lemma uint_of_low_bits:
  "uint_of v neg m =
     (let low = strtol_value neg m mod 4294967296 in
      if low < 2147483648 then Uint (nat low) else Invalid_Number (''Invalid number: '' @ v))"
proof -
  define l where "l = strtol_value neg m"
  have "0 \<le> l mod 4294967296" "l mod 4294967296 < 4294967296"
    by simp_all
  then show ?thesis
    unfolding uint_of_def Let_def l_def [symmetric] int_of_long_low_bits [of l]
    by (simp only: split: if_splits) auto
qed

lemma span_digits:
  "\<exists>ds rest. t = ds @ rest \<and> list_all (is_digit b) ds \<and> (rest = [] \<or> \<not> is_digit b (hd rest))"
proof (intro exI conjI)
  show "t = takeWhile (is_digit b) t @ dropWhile (is_digit b) t"
    by simp
  show "list_all (is_digit b) (takeWhile (is_digit b) t)"
    by (simp add: list_all_iff) (meson set_takeWhileD)
  show "dropWhile (is_digit b) t = [] \<or> \<not> is_digit b (hd (dropWhile (is_digit b) t))"
    using hd_dropWhile [of "is_digit b" t] by blast
qed

lemma sign_forms:
  "\<exists>ws sg t. v = ws @ sg @ t \<and> list_all isspace ws \<and> is_sign sg \<and>
     (sg = [] \<longrightarrow> t = [] \<or> (\<not> isspace (hd t) \<and> hd t \<noteq> CHR ''+'' \<and> hd t \<noteq> CHR ''-''))"
proof -
  define ws where "ws = takeWhile isspace v"
  define s where "s = dropWhile isspace v"
  have v: "v = ws @ s"
    by (simp add: ws_def s_def)
  have ws: "list_all isspace ws"
    by (simp add: ws_def list_all_iff) (meson set_takeWhileD)
  have s: "s = [] \<or> \<not> isspace (hd s)"
    using hd_dropWhile [of isspace v] by (auto simp add: s_def)
  show ?thesis
  proof (cases "s \<noteq> [] \<and> (hd s = CHR ''+'' \<or> hd s = CHR ''-'')")
    case True
    then have "s = [hd s] @ tl s" "is_sign [hd s]"
      by (auto simp add: is_sign_def)
    with v ws show ?thesis
      by (metis list.distinct(1))
  next
    case False
    with s have "s = [] \<or> (\<not> isspace (hd s) \<and> hd s \<noteq> CHR ''+'' \<and> hd s \<noteq> CHR ''-'')"
      by blast
    moreover have "v = ws @ [] @ s" "is_sign []"
      using v by (simp_all add: is_sign_def)
    ultimately show ?thesis
      using ws by blast
  qed
qed

lemma digit_val_decimal:
  "digit_val (CHR ''0'') = Some 0" "digit_val (CHR ''1'') = Some 1"
  "digit_val (CHR ''2'') = Some 2" "digit_val (CHR ''3'') = Some 3"
  "digit_val (CHR ''4'') = Some 4" "digit_val (CHR ''5'') = Some 5"
  "digit_val (CHR ''6'') = Some 6" "digit_val (CHR ''7'') = Some 7"
  "digit_val (CHR ''8'') = Some 8" "digit_val (CHR ''9'') = Some 9"
  by (simp_all add: digit_val_def)

lemma get_uint_decimal:
  assumes "list_all isspace ws" and "is_sign sg" and "decimal_literal ds rest"
  shows "get_uint (ws @ sg @ ds @ rest) =
           uint_of (ws @ sg @ ds @ rest) (sg = ''-'') (digits_value 10 ds)"
proof -
  from assms(3) obtain d ds' where ds: "ds = d # ds'" and d: "is_digit 10 d"
    by (cases ds) (auto simp add: decimal_literal_def)
  have "scan_magnitude (ds @ rest) = Some (digits_value 10 ds)"
    using assms(3) by (intro scan_magnitude_decimal) (simp_all add: decimal_literal_def)
  moreover have "sg = [] \<longrightarrow> ds @ rest = [] \<or>
      (\<not> isspace (hd (ds @ rest)) \<and> hd (ds @ rest) \<noteq> CHR ''+'' \<and> hd (ds @ rest) \<noteq> CHR ''-'')"
    using digit_not_sign [OF d] by (simp add: ds)
  ultimately show ?thesis
    using get_uint_signed [OF assms(1,2), of "ds @ rest"] by simp
qed

lemma get_uint_octal:
  assumes "list_all isspace ws" and "is_sign sg" and "octal_literal ds rest"
  shows "get_uint (ws @ sg @ CHR ''0'' # ds @ rest) =
           uint_of (ws @ sg @ CHR ''0'' # ds @ rest) (sg = ''-'') (digits_value 8 ds)"
proof -
  let ?t = "CHR ''0'' # ds @ rest"
  have "scan_magnitude ?t = Some (digits_value 8 ds)"
    using assms(3) by (intro scan_magnitude_octal) (simp_all add: octal_literal_def)
  moreover have "sg = [] \<longrightarrow> ?t = [] \<or>
      (\<not> isspace (hd ?t) \<and> hd ?t \<noteq> CHR ''+'' \<and> hd ?t \<noteq> CHR ''-'')"
    by (simp add: isspace_def)
  ultimately show ?thesis
    using get_uint_signed [OF assms(1,2), of ?t] by simp
qed

lemma get_uint_hex:
  assumes "list_all isspace ws" and "is_sign sg" and "hex_literal x ds rest"
  shows "get_uint (ws @ sg @ CHR ''0'' # x # ds @ rest) =
           uint_of (ws @ sg @ CHR ''0'' # x # ds @ rest) (sg = ''-'') (digits_value 16 ds)"
proof -
  let ?t = "CHR ''0'' # x # ds @ rest"
  have "scan_magnitude ?t = Some (digits_value 16 ds)"
    using assms(3) by (intro scan_magnitude_hex) (simp_all add: hex_literal_def)
  moreover have "sg = [] \<longrightarrow> ?t = [] \<or>
      (\<not> isspace (hd ?t) \<and> hd ?t \<noteq> CHR ''+'' \<and> hd ?t \<noteq> CHR ''-'')"
    by (simp add: isspace_def)
  ultimately show ?thesis
    using get_uint_signed [OF assms(1,2), of ?t] by simp
qed

lemma get_uint_no_literal:
  assumes "list_all isspace ws" and "is_sign sg" and "no_literal sg rest"
  shows "get_uint (ws @ sg @ rest) = Invalid_Number (''Invalid number: '' @ ws @ sg @ rest)"
proof -
  have "scan_magnitude rest = None"
    using assms(3) by (intro scan_magnitude_none) (simp add: no_literal_def)
  moreover have "sg = [] \<longrightarrow> rest = [] \<or>
      (\<not> isspace (hd rest) \<and> hd rest \<noteq> CHR ''+'' \<and> hd rest \<noteq> CHR ''-'')"
    using assms(3) by (simp add: no_literal_def)
  ultimately show ?thesis
    using get_uint_signed [OF assms(1,2), of rest] by simp
qed

lemma literal_cases:
  "(\<exists>ds rest. t = ds @ rest \<and> decimal_literal ds rest) \<or>
   (\<exists>ds rest. t = CHR ''0'' # ds @ rest \<and> octal_literal ds rest) \<or>
   (\<exists>x ds rest. t = CHR ''0'' # x # ds @ rest \<and> hex_literal x ds rest) \<or>
   t = [] \<or> \<not> is_digit 10 (hd t)"
proof (cases "t = [] \<or> \<not> is_digit 10 (hd t)")
  case True
  then show ?thesis
    by blast
next
  case False
  then obtain c t' where t: "t = c # t'" and c: "is_digit 10 c"
    by (cases t) auto
  show ?thesis
  proof (cases "c = CHR ''0''")
    case nz: False
    from span_digits [of t 10] obtain ds rest where s: "t = ds @ rest" "list_all (is_digit 10) ds"
      "rest = [] \<or> \<not> is_digit 10 (hd rest)"
      by blast
    have ne: "ds \<noteq> []"
      using s c t by (cases ds) auto
    then have "hd ds = c"
      using s(1) t by (cases ds) auto
    with ne s nz have "decimal_literal ds rest"
      by (simp add: decimal_literal_def)
    with s(1) show ?thesis
      by blast
  next
    case z: True
    show ?thesis
    proof (cases "str_begins_with t' ''x'' \<or> str_begins_with t' ''X''")
      case True
      then obtain x t'' where x: "t' = x # t''" "x = CHR ''x'' \<or> x = CHR ''X''"
        by (cases t') (auto simp add: str_begins_with_def)
      from span_digits [of t'' 16] obtain ds rest where s: "t'' = ds @ rest"
        "list_all (is_digit 16) ds" "rest = [] \<or> \<not> is_digit 16 (hd rest)"
        by blast
      have "t = CHR ''0'' # x # ds @ rest"
        using t z x s by simp
      moreover have "hex_literal x ds rest"
        using x s by (simp add: hex_literal_def)
      ultimately show ?thesis
        by blast
    next
      case False
      from span_digits [of t' 8] obtain ds rest where s: "t' = ds @ rest"
        "list_all (is_digit 8) ds" "rest = [] \<or> \<not> is_digit 8 (hd rest)"
        by blast
      have "t = CHR ''0'' # ds @ rest"
        using t z s by simp
      moreover have "octal_literal ds rest"
        using s False by (simp add: octal_literal_def)
      ultimately show ?thesis
        by blast
    qed
  qed
qed

lemma get_uint_forms:
  "\<exists>ws sg t. v = ws @ sg @ t \<and> list_all isspace ws \<and> is_sign sg \<and>
     ((\<exists>ds rest. t = ds @ rest \<and> decimal_literal ds rest) \<or>
      (\<exists>ds rest. t = CHR ''0'' # ds @ rest \<and> octal_literal ds rest) \<or>
      (\<exists>x ds rest. t = CHR ''0'' # x # ds @ rest \<and> hex_literal x ds rest) \<or>
      no_literal sg t)"
proof -
  from sign_forms [of v] obtain ws sg t where s: "v = ws @ sg @ t \<and> list_all isspace ws \<and>
    is_sign sg"
    and f: "sg = [] \<longrightarrow> t = [] \<or> (\<not> isspace (hd t) \<and> hd t \<noteq> CHR ''+'' \<and> hd t \<noteq> CHR ''-'')"
    by blast
  let ?P = "(\<exists>ds rest. t = ds @ rest \<and> decimal_literal ds rest) \<or>
      (\<exists>ds rest. t = CHR ''0'' # ds @ rest \<and> octal_literal ds rest) \<or>
      (\<exists>x ds rest. t = CHR ''0'' # x # ds @ rest \<and> hex_literal x ds rest)"
  have "?P \<or> no_literal sg t"
  proof (cases "t = [] \<or> \<not> is_digit 10 (hd t)")
    case True
    with f have "no_literal sg t"
      by (simp only: no_literal_def simp_thms)
    then show ?thesis ..
  next
    case False
    with literal_cases [of t] have ?P
      by (simp only: simp_thms)
    then show ?thesis ..
  qed
  with s have g: "v = ws @ sg @ t \<and> list_all isspace ws \<and> is_sign sg \<and>
     ((\<exists>ds rest. t = ds @ rest \<and> decimal_literal ds rest) \<or>
      (\<exists>ds rest. t = CHR ''0'' # ds @ rest \<and> octal_literal ds rest) \<or>
      (\<exists>x ds rest. t = CHR ''0'' # x # ds @ rest \<and> hex_literal x ds rest) \<or>
      no_literal sg t)"
    by (simp only: simp_thms disj_assoc)
  show ?thesis
    by (intro exI) (rule g)
qed

lemma get_uint_message:
  "get_uint v = Invalid_Number e \<Longrightarrow> e = ''Invalid number: '' @ v"
  by (auto simp add: get_uint_def split: scan_result.splits if_splits)

subsection \<open>Line continuation\<close>

text \<open>
  C6, as stated, fails: the two lines do not yield \<open>kv("a", "1  2")\<close> with two
  spaces.
\<close>

theorem continuation_two_spaces_counterexample:
  "events (settings_read_i (file_world [(''p'', continuation_conf)]) accept_all ''p'' None () 3)
     \<noteq> [Callback ''a'' ''1  2'']"
  by code_simp

text \<open>
  C6, amended: parsing the physical lines \<open>a = 1 \\<close> and \<open>   2 # trailing\<close> produces
  exactly one key-value event \<open>kv("a", "1 2")\<close>, with the single space that joins the
  two parts (the white space before the backslash and the leading white space of the
  second line are both dropped), and the parse succeeds.
\<close>

theorem continuation_joined_with_one_space:
  "events (settings_read_i (file_world [(''p'', continuation_conf)]) accept_all ''p'' None () 3)
     = [Callback ''a'' ''1 2''] \<and>
   result (settings_read_i (file_world [(''p'', continuation_conf)]) accept_all ''p'' None () 3)
     = Some (Returned True None)"
  by code_simp

subsection \<open>Errors of the key-value callback\<close>

text \<open>
  C8, as stated, fails: on the one-line input \<open>svc { key = v }\<close> the parse does not
  end with the error that the claim gives.
\<close>

theorem one_line_section_counterexample:
  "result (settings_read_i (file_world [(''p'', [''svc { key = v }''])]) nope_callbacks ''p'' None () 2)
     \<noteq> Some (Returned False (Some
          ''Error in configuration file p line 1: nope (section changed in p at line 1)''))"
  by code_simp

text \<open>
  C8, amended: on the one-line input \<open>svc { key = v }\<close> the section callback
  \<open>sect("svc", "")\<close> is called, what follows \<open>{\<close> on the line is ignored, so the
  key-value callback is never called, and the parse succeeds.  With the body on a line
  of its own (\<open>svc {\<close>, \<open>key = v\<close>, \<open>}\<close>) and \<open>kv("key", "v")\<close> returning \<open>nope\<close>, the
  parse fails with exactly \<open>Error in configuration file p line 2: nope\<close>: the error of
  the key-value callback is reported with the file and line of the assignment and is
  not wrapped with the enclosing section's path and line.
\<close>

theorem key_value_error_not_wrapped:
  "result (settings_read_i (file_world [(''p'', [''svc { key = v }''])]) nope_callbacks ''p'' None () 2)
     = Some (Returned True None) \<and>
   events (settings_read_i (file_world [(''p'', [''svc { key = v }''])]) nope_callbacks ''p'' None () 2)
     = [Sect_Callback (Some ''svc'') (Some [])] \<and>
   result (settings_read_i (file_world [(''p'', [''svc {'', ''key = v'', ''}''])]) nope_callbacks ''p'' None () 2)
     = Some (Returned False (Some ''Error in configuration file p line 2: nope'')) \<and>
   events (settings_read_i (file_world [(''p'', [''svc {'', ''key = v'', ''}''])]) nope_callbacks ''p'' None () 2)
     = [Sect_Callback (Some ''svc'') (Some []), Callback ''key'' ''v'']"
  by code_simp

subsection \<open>Section depth\<close>

text \<open>
  C1, as stated, fails: a file whose only line is \<open>foo {\<close> reaches the end of input
  with one section open and no section closed, and the parse succeeds.
\<close>

theorem unmatched_open_counterexample:
  "result (settings_read_i (file_world [(''p'', [''foo {''])]) accept_all ''p'' None () 2)
     = Some (Returned True None) \<and>
   sections (settings_read_i (file_world [(''p'', [''foo {''])]) accept_all ''p'' None () 2) = 1 \<and>
   events (settings_read_i (file_world [(''p'', [''foo {''])]) accept_all ''p'' None () 2)
     = [Sect_Callback (Some ''foo'') (Some [])]"
  by code_simp

text \<open>
  C1, amended: at every point of every parse the running section depth \<open>sections\<close> is
  never negative.  A physical line that completes the logical line \<open>}\<close> (the line
  buffer holding nothing of an earlier line) and is read at depth 0 ends the parse with
  the error \<open>Unexpected '}'\<close> for that file and line; nothing is dispatched for it and
  the depth stays 0.  The end of input is not checked for open sections: an input that
  ends with an unmatched \<open>{\<close>, such as the single line \<open>foo {\<close>, parses successfully,
  so section opens and closes need not be equal in number.
\<close>

theorem section_depth_never_negative:
  "0 \<le> sections (settings_read_i w cb p sel c n) \<and>
   (result st = None \<and> input st = f # prev \<and> stream f = l # ls \<and> sections st = 0 \<and>
    logical_line (full_line st) (c_str l) = Some buf \<and> c_str buf = ''}'' \<longrightarrow>
      result (step w cb st) = Some (Returned False (Some
        (''Error in configuration file '' @ path f @ '' line '' @
         string_of_nat (linenum f + 1) @ '': Unexpected '' @ [CHR 0x27] @ ''}'' @ [CHR 0x27]))) \<and>
      sections (step w cb st) = 0 \<and> events (step w cb st) = events st) \<and>
   result (settings_read_i (file_world [(''p'', [''foo {''])]) accept_all ''p'' None () 2)
     = Some (Returned True None)"
proof (intro conjI impI)
  show "0 \<le> sections (settings_read_i w cb p sel c n)"
    using untargeted_settings_read_i [of c w cb p sel n] by (simp add: untargeted_def)
next
  assume a: "result st = None \<and> input st = f # prev \<and> stream f = l # ls \<and> sections st = 0 \<and>
    logical_line (full_line st) (c_str l) = Some buf \<and> c_str buf = ''}''"
  then have h: "result st = None" "input st = f # prev" "stream f = l # ls" "sections st = 0"
    "logical_line (full_line st) (c_str l) = Some buf" "c_str buf = ''}''"
    by simp_all
  note s = step_section_end [OF h]
  show "result (step w cb st) = Some (Returned False (Some
        (''Error in configuration file '' @ path f @ '' line '' @
         string_of_nat (linenum f + 1) @ '': Unexpected '' @ [CHR 0x27] @ ''}'' @ [CHR 0x27])))"
    by (rule s(1))
  show "sections (step w cb st) = 0"
    by (rule s(2))
  show "events (step w cb st) = events st"
    by (rule s(3))
next
  show "result (settings_read_i (file_world [(''p'', [''foo {''])]) accept_all ''p'' None () 2)
     = Some (Returned True None)"
    by code_simp
qed

theorem section_depth_witness:
  "result (settings_read_i (file_world [(''p'', [''a = 1'', ''  } # end'', ''b = 2''])])
      accept_all ''p'' None () 2) =
     Some (Returned False (Some
       (''Error in configuration file p line 2: Unexpected '' @ [CHR 0x27] @ ''}'' @ [CHR 0x27]))) \<and>
   events (settings_read_i (file_world [(''p'', [''a = 1'', ''  } # end'', ''b = 2''])])
      accept_all ''p'' None () 2) = [Callback ''a'' ''1''] \<and>
   0 \<le> sections (settings_read_i (file_world [(''p'', [''a = 1'', ''  } # end'', ''b = 2''])])
      accept_all ''p'' None () 2)"
proof -
  let ?w = "file_world [(''p'', [''a = 1'', ''  } # end'', ''b = 2''])]"
  let ?st = "settings_read_i ?w accept_all ''p'' None () 1"
  let ?f = "\<lparr>path = ''p'', stream = [''  } # end'', ''b = 2''], linenum = 1\<rparr>"
  note t = section_depth_never_negative
  have r: "settings_read_i ?w accept_all ''p'' None () 2 = step ?w accept_all ?st"
    by code_simp
  have h: "result ?st = None \<and> input ?st = ?f # [] \<and> stream ?f = ''  } # end'' # [''b = 2''] \<and>
      sections ?st = 0 \<and> logical_line (full_line ?st) (c_str ''  } # end'') = Some ''}'' \<and>
      c_str ''}'' = ''}''"
    by code_simp
  have m: "''Error in configuration file '' @ path ?f @ '' line '' @
         string_of_nat (linenum ?f + 1) @ '': Unexpected '' @ [CHR 0x27] @ ''}'' @ [CHR 0x27] =
        ''Error in configuration file p line 2: Unexpected '' @ [CHR 0x27] @ ''}'' @ [CHR 0x27]"
    by code_simp
  have ev: "events ?st = [Callback ''a'' ''1'']"
    by code_simp
  from t [THEN conjunct2, THEN conjunct1, rule_format, OF h, of ?w accept_all]
  have "result (step ?w accept_all ?st) = Some (Returned False (Some
        (''Error in configuration file p line 2: Unexpected '' @ [CHR 0x27] @ ''}'' @ [CHR 0x27]))) \<and>
      events (step ?w accept_all ?st) = [Callback ''a'' ''1'']"
    by (simp only: m ev simp_thms)
  moreover have "0 \<le> sections (settings_read_i ?w accept_all ''p'' None () 2)"
    by (rule t [THEN conjunct1])
  ultimately show ?thesis
    by (simp only: r simp_thms)
qed

subsection \<open>Section selector\<close>




subsection \<open>Tolerant includes\<close>

text \<open>
  C3, as stated, fails: \<open>open\<close> of the included file fails with \<open>EACCES\<close>, which is not
  file-not-found, and the tolerant include still returns success; the parse goes on
  with the next line of the including file.
\<close>

theorem include_try_counterexample:
  "sys_open denied_world ''x.conf'' = Inl EACCES \<and>
   result (settings_read_i denied_world accept_all ''p'' None () 3) = Some (Returned True None) \<and>
   events (settings_read_i denied_world accept_all ''p'' None () 3) = [Callback ''k'' ''1'']"
  by code_simp

text \<open>
  C3, amended: an \<open>!include_try\<close> directive suppresses exactly two failure kinds: any
  failure of \<open>open\<close> on a file to include, whatever its \<open>errno\<close>, and a glob expansion
  that matches nothing.  Both return success with no frame pushed for the file or
  pattern concerned.  Every other failure during a tolerant include (glob allocation,
  read and unknown errors, and a path that is already on the input stack) is an error,
  and an error of the include ends the parse with a failure.
\<close>

theorem include_try_suppresses_open_and_nomatch:
  "(have_glob w \<and> sys_glob w pattern = GLOB_NOMATCH \<longrightarrow>
      settings_include w pattern inputp True = (None, inputp)) \<and>
   (\<not> list_ex (\<lambda>tmp. path tmp = p) inputp \<and> sys_open w p = Inl e \<longrightarrow>
      settings_add_include w p inputp True = (None, inputp)) \<and>
   (list_ex (\<lambda>tmp. path tmp = p) inputp \<longrightarrow>
      settings_add_include w p inputp True = (Some (''Recursive include file: '' @ p), inputp)) \<and>
   (have_glob w \<and> sys_glob w pattern = GLOB_NOSPACE \<longrightarrow>
      settings_include w pattern inputp True = (Some ''glob() failed: Not enough memory'', inputp)) \<and>
   (have_glob w \<and> sys_glob w pattern = GLOB_ABORTED \<longrightarrow>
      settings_include w pattern inputp True = (Some ''glob() failed: Read error'', inputp)) \<and>
   (have_glob w \<and> sys_glob w pattern = Glob_Unknown \<longrightarrow>
      settings_include w pattern inputp True = (Some ''glob() failed: Unknown error'', inputp)) \<and>
   (settings_include w (fix_relative_path line (hd (input st))) (input st) True
      = (Some errormsg, inputp') \<longrightarrow>
      result (include_line w st True line) =
        Some (Returned False (Some
          (''Error in configuration file '' @ path (hd inputp') @ '' line '' @
           string_of_nat (linenum (hd inputp')) @ '': '' @ errormsg))))"
  by (simp add: settings_include_def settings_add_include_def include_line_def error_exit_def)

theorem include_try_witness:
  "settings_include (denied_world\<lparr>sys_glob := \<lambda>pattern. GLOB_NOMATCH\<rparr>) ''x.conf''
      (input (initial_state ''p'' [] None ())) True
     = (None, input (initial_state ''p'' [] None ())) \<and>
   settings_add_include denied_world ''x.conf'' (input (initial_state ''p'' [] None ())) True
     = (None, input (initial_state ''p'' [] None ())) \<and>
   settings_add_include denied_world ''p'' (input (initial_state ''p'' [] None ())) True
     = (Some ''Recursive include file: p'', input (initial_state ''p'' [] None ())) \<and>
   settings_include (denied_world\<lparr>sys_glob := \<lambda>pattern. GLOB_NOSPACE\<rparr>) ''x.conf''
      (input (initial_state ''p'' [] None ())) True
     = (Some ''glob() failed: Not enough memory'', input (initial_state ''p'' [] None ())) \<and>
   settings_include (denied_world\<lparr>sys_glob := \<lambda>pattern. GLOB_ABORTED\<rparr>) ''x.conf''
      (input (initial_state ''p'' [] None ())) True
     = (Some ''glob() failed: Read error'', input (initial_state ''p'' [] None ())) \<and>
   settings_include (denied_world\<lparr>sys_glob := \<lambda>pattern. Glob_Unknown\<rparr>) ''x.conf''
      (input (initial_state ''p'' [] None ())) True
     = (Some ''glob() failed: Unknown error'', input (initial_state ''p'' [] None ())) \<and>
   result (include_line (denied_world\<lparr>sys_glob := \<lambda>pattern. GLOB_ABORTED\<rparr>)
      (initial_state ''p'' [] None ()) True ''x.conf'')
     = Some (Returned False (Some
         (''Error in configuration file p line '' @ string_of_nat 0 @ '': glob() failed: Read error'')))"
proof -
  let ?st = "initial_state ''p'' [] None () :: unit parser_state"
  let ?in = "input ?st"
  have i: "?in = [\<lparr>path = ''p'', stream = [], linenum = 0\<rparr>]"
    by (simp add: initial_state_def)
  have h1: "\<not> list_ex (\<lambda>tmp. path tmp = ''x.conf'') ?in" "sys_open denied_world ''x.conf'' = Inl EACCES"
    "list_ex (\<lambda>tmp. path tmp = ''p'') ?in"
    by (simp_all add: i denied_world_def)
  have fx: "fix_relative_path ''x.conf'' (hd ?in) = ''x.conf''"
    by (simp add: i fix_relative_path_def str_begins_with_def strrchr_def)
  note t = include_try_suppresses_open_and_nomatch
  have a: "settings_include (denied_world\<lparr>sys_glob := \<lambda>pattern. GLOB_NOMATCH\<rparr>) ''x.conf'' ?in True
             = (None, ?in)"
    by (rule t [THEN conjunct1, rule_format]) (simp add: denied_world_def)
  have b: "settings_add_include denied_world ''x.conf'' ?in True = (None, ?in)"
    by (rule t [THEN conjunct2, THEN conjunct1, rule_format, where e = EACCES]) (simp add: h1)
  have c: "settings_add_include denied_world ''p'' ?in True =
             (Some (''Recursive include file: '' @ ''p''), ?in)"
    by (rule t [THEN conjunct2, THEN conjunct2, THEN conjunct1, rule_format]) (simp add: h1)
  have d: "settings_include (denied_world\<lparr>sys_glob := \<lambda>pattern. GLOB_NOSPACE\<rparr>) ''x.conf'' ?in True
             = (Some ''glob() failed: Not enough memory'', ?in)"
    by (rule t [THEN conjunct2, THEN conjunct2, THEN conjunct2, THEN conjunct1, rule_format])
      (simp add: denied_world_def)
  have e: "settings_include (denied_world\<lparr>sys_glob := \<lambda>pattern. GLOB_ABORTED\<rparr>) ''x.conf'' ?in True
             = (Some ''glob() failed: Read error'', ?in)"
    by (rule t [THEN conjunct2, THEN conjunct2, THEN conjunct2, THEN conjunct2, THEN conjunct1,
          rule_format])
      (simp add: denied_world_def)
  have f: "settings_include (denied_world\<lparr>sys_glob := \<lambda>pattern. Glob_Unknown\<rparr>) ''x.conf'' ?in True
             = (Some ''glob() failed: Unknown error'', ?in)"
    by (rule t [THEN conjunct2, THEN conjunct2, THEN conjunct2, THEN conjunct2, THEN conjunct2,
          THEN conjunct1, rule_format])
      (simp add: denied_world_def)
  have "result (include_line (denied_world\<lparr>sys_glob := \<lambda>pattern. GLOB_ABORTED\<rparr>) ?st True ''x.conf'')
     = Some (Returned False (Some
         (''Error in configuration file '' @ path (hd ?in) @ '' line '' @
          string_of_nat (linenum (hd ?in)) @ '': '' @ ''glob() failed: Read error'')))"
    by (rule t [THEN conjunct2, THEN conjunct2, THEN conjunct2, THEN conjunct2, THEN conjunct2,
          THEN conjunct2, rule_format])
      (simp add: fx e)
  then have g: "result (include_line (denied_world\<lparr>sys_glob := \<lambda>pattern. GLOB_ABORTED\<rparr>) ?st True ''x.conf'')
     = Some (Returned False (Some
         (''Error in configuration file p line '' @ string_of_nat 0 @ '': glob() failed: Read error'')))"
    by (simp add: i)
  from a b c d e f g show ?thesis
    by simp
qed

subsection \<open>Recursive includes\<close>

text \<open>
  C4, as stated, fails: \<open>a.conf\<close> and \<open>b.conf\<close> include each other, and parsing
  \<open>a.conf\<close> does fail with one \<open>Recursive include file\<close> error, but the key-value
  callback has fired for the line of \<open>b.conf\<close> that precedes its include directive.
\<close>

theorem include_cycle_counterexample:
  "events (settings_read_i (file_world cycle_files) accept_all ''a.conf'' None () 3)
     = [Callback ''k'' ''1''] \<and>
   result (settings_read_i (file_world cycle_files) accept_all ''a.conf'' None () 3)
     = Some (Returned False (Some
         ''Error in configuration file b.conf line 2: Recursive include file: a.conf''))"
  by code_simp

text \<open>
  C4, amended: every attempt to push an include whose path string equals the path of
  a frame already on the input stack fails with \<open>Recursive include file: <path>\<close>
  whatever \<open>open\<close> would do with the file, and nothing is pushed.  An include directive
  whose first path to push is on the stack therefore ends the parse with that error,
  reported at the file and line of the directive, and leaves everything else as it was:
  no callback is invoked for it or after it.  For two files A and B that include each
  other by the same path strings, the lines of B that precede its include directive
  have been dispatched by then.
\<close>

theorem recursive_include_detected:
  "(list_ex (\<lambda>tmp. path tmp = p) inputp \<longrightarrow>
      settings_add_include w p inputp ignore_errors =
        (Some (''Recursive include file: '' @ p), inputp) \<and>
      settings_add_include (w\<lparr>sys_open := other_open\<rparr>) p inputp ignore_errors =
        settings_add_include w p inputp ignore_errors) \<and>
   (have_glob w \<and> sys_glob w (fix_relative_path line (hd (input st))) = Glob_Ok (q # pathv) \<and>
    list_ex (\<lambda>tmp. path tmp = q) (input st) \<longrightarrow>
      include_line w st ignore_errors line =
        st\<lparr>result := Some (Returned False (Some
             (''Error in configuration file '' @ path (hd (input st)) @ '' line '' @
              string_of_nat (linenum (hd (input st))) @ '': Recursive include file: '' @ q)))\<rparr>) \<and>
   (\<not> have_glob w \<and>
    list_ex (\<lambda>tmp. path tmp = fix_relative_path line (hd (input st))) (input st) \<longrightarrow>
      include_line w st ignore_errors line =
        st\<lparr>result := Some (Returned False (Some
             (''Error in configuration file '' @ path (hd (input st)) @ '' line '' @
              string_of_nat (linenum (hd (input st))) @ '': Recursive include file: '' @
              fix_relative_path line (hd (input st)))))\<rparr>)"
  by (simp add: settings_include_def settings_add_include_def include_line_def error_exit_def)

theorem recursive_include_witness:
  "list_ex (\<lambda>tmp. path tmp = ''a.conf'')
     (input (settings_read_i (file_world cycle_files) accept_all ''a.conf'' None () 2)) \<and>
   settings_add_include (file_world cycle_files) ''a.conf''
     (input (settings_read_i (file_world cycle_files) accept_all ''a.conf'' None () 2)) False =
     (Some (''Recursive include file: '' @ ''a.conf''),
      input (settings_read_i (file_world cycle_files) accept_all ''a.conf'' None () 2)) \<and>
   result (include_line (file_world cycle_files)
     (settings_read_i (file_world cycle_files) accept_all ''a.conf'' None () 2) False ''a.conf'') =
     Some (Returned False (Some
       ''Error in configuration file b.conf line 1: Recursive include file: a.conf'')) \<and>
   events (include_line (file_world cycle_files)
     (settings_read_i (file_world cycle_files) accept_all ''a.conf'' None () 2) False ''a.conf'') =
     [Callback ''k'' ''1''] \<and>
   result (include_line ((file_world cycle_files)\<lparr>have_glob := False\<rparr>)
     (settings_read_i (file_world cycle_files) accept_all ''a.conf'' None () 2) False ''a.conf'') =
     Some (Returned False (Some
       ''Error in configuration file b.conf line 1: Recursive include file: a.conf''))"
proof -
  let ?w = "file_world cycle_files"
  let ?X = "settings_read_i ?w accept_all ''a.conf'' None () 2"
  note t = recursive_include_detected
  have onstack: "list_ex (\<lambda>tmp. path tmp = ''a.conf'') (input ?X)"
    by code_simp
  have fx: "fix_relative_path ''a.conf'' (hd (input ?X)) = ''a.conf''"
    by code_simp
  have g: "have_glob ?w" "sys_glob ?w ''a.conf'' = Glob_Ok [''a.conf'']"
    by code_simp+
  have ev: "events ?X = [Callback ''k'' ''1'']"
    by code_simp
  have msg: "''Error in configuration file '' @ path (hd (input ?X)) @ '' line '' @
      string_of_nat (linenum (hd (input ?X))) @ '': Recursive include file: '' @ ''a.conf''
      = ''Error in configuration file b.conf line 1: Recursive include file: a.conf''"
    by code_simp
  have a: "settings_add_include ?w ''a.conf'' (input ?X) False =
      (Some (''Recursive include file: '' @ ''a.conf''), input ?X)"
    using t [THEN conjunct1, rule_format, OF onstack] by simp
  have "include_line ?w ?X False ''a.conf'' =
      ?X\<lparr>result := Some (Returned False (Some
             (''Error in configuration file '' @ path (hd (input ?X)) @ '' line '' @
              string_of_nat (linenum (hd (input ?X))) @ '': Recursive include file: '' @ ''a.conf'')))\<rparr>"
    by (rule t [THEN conjunct2, THEN conjunct1, rule_format, where pathv = "[]"])
      (simp add: fx g onstack)
  then have b: "include_line ?w ?X False ''a.conf'' =
      ?X\<lparr>result := Some (Returned False (Some
        ''Error in configuration file b.conf line 1: Recursive include file: a.conf''))\<rparr>"
    by (simp only: msg)
  have "include_line (?w\<lparr>have_glob := False\<rparr>) ?X False ''a.conf'' =
      ?X\<lparr>result := Some (Returned False (Some
             (''Error in configuration file '' @ path (hd (input ?X)) @ '' line '' @
              string_of_nat (linenum (hd (input ?X))) @ '': Recursive include file: '' @
              fix_relative_path ''a.conf'' (hd (input ?X)))))\<rparr>"
    by (rule t [THEN conjunct2, THEN conjunct2, rule_format]) (simp add: fx onstack)
  then have c: "include_line (?w\<lparr>have_glob := False\<rparr>) ?X False ''a.conf'' =
      ?X\<lparr>result := Some (Returned False (Some
        ''Error in configuration file b.conf line 1: Recursive include file: a.conf''))\<rparr>"
    by (simp only: fx msg)
  show ?thesis
    using onstack a ev by (simp add: b c)
qed

subsection \<open>Order of glob-expanded includes\<close>



subsection \<open>Quoted and unquoted values\<close>

text \<open>
  C5: for every assignment line that reaches the key-value callback (the parser is not
  skipping a section).  Whatever the physical line \<open>l\<close> that completes it, when the
  logical line is a key, optional white space, \<open>=\<close>, optional white space and a value
  \<open>v\<close> (the key not being an include keyword followed by white space), reading \<open>l\<close>
  calls the callback with the key and the value \<open>V\<close>: if \<open>v\<close> begins and ends with the
  same quote character, \<open>"\<close> or \<open>'\<close>, \<open>V\<close> is \<open>v\<close> with the outer quotes stripped and
  the backslash escapes unescaped, not environment-expanded; otherwise \<open>V\<close> is \<open>v\<close>
  environment-expanded as the specification words it (\<open>expand_spec\<close>): scanning from
  the left, each \<open>$ENV:NAME\<close> at the start of the value or after a white byte is
  replaced by the environment's value of \<open>NAME\<close> (nothing if unset), \<open>NAME\<close> ending at
  the next space or at the end, and every other \<open>$\<close> is copied.  The call is logged, the
  context is the one the callback returns, and the parse goes on unless the callback
  returns an error, which ends it with the callback's message for that file and line.
\<close>

theorem value_unescaped_or_expanded:
  "result st = None \<and> input st = f # prev \<and> stream f = l # ls \<and> skip st \<le> 0 \<and>
   logical_line (full_line st) (c_str l) = Some buf \<and>
   c_str buf = key @ ws1 @ ''='' @ ws2 @ v \<and> key_bytes key \<and> list_all IS_WHITE ws1 \<and>
   list_all IS_WHITE ws2 \<and> (v = [] \<or> \<not> IS_WHITE (hd v)) \<and>
   (ws1 = [] \<or> (key \<noteq> ''!include'' \<and> key \<noteq> ''!include_try'')) \<and>
   V = (if v \<noteq> [] \<and> hd v = last v \<and> (hd v = CHR 0x22 \<or> hd v = CHR 0x27)
        then str_unescape (butlast (tl v))
        else expand_spec (sys_getenv w) True v) \<longrightarrow>
   events (step w cb st) = events st @ [Callback key V] \<and>
   cb_context (step w cb st) = snd (callback cb key V (cb_context st)) \<and>
   result (step w cb st) =
     (case fst (callback cb key V (cb_context st)) of
        None \<Rightarrow> None
      | Some e \<Rightarrow> Some (Returned False (Some
          (''Error in configuration file '' @ path f @ '' line '' @
           string_of_nat (linenum f + 1) @ '': '' @ e))))"
proof
  assume a: "result st = None \<and> input st = f # prev \<and> stream f = l # ls \<and> skip st \<le> 0 \<and>
   logical_line (full_line st) (c_str l) = Some buf \<and>
   c_str buf = key @ ws1 @ ''='' @ ws2 @ v \<and> key_bytes key \<and> list_all IS_WHITE ws1 \<and>
   list_all IS_WHITE ws2 \<and> (v = [] \<or> \<not> IS_WHITE (hd v)) \<and>
   (ws1 = [] \<or> (key \<noteq> ''!include'' \<and> key \<noteq> ''!include_try'')) \<and>
   V = (if v \<noteq> [] \<and> hd v = last v \<and> (hd v = CHR 0x22 \<or> hd v = CHR 0x27)
        then str_unescape (butlast (tl v))
        else expand_spec (sys_getenv w) True v)"
  then have h: "result st = None" "input st = f # prev" "stream f = l # ls" "skip st \<le> 0"
    "logical_line (full_line st) (c_str l) = Some buf"
    "c_str buf = key @ ws1 @ ''='' @ ws2 @ v" "key_bytes key" "list_all IS_WHITE ws1"
    "list_all IS_WHITE ws2" "v = [] \<or> \<not> IS_WHITE (hd v)"
    "ws1 = [] \<or> (key \<noteq> ''!include'' \<and> key \<noteq> ''!include_try'')"
    by simp_all
  from a have V: "V = spec_value (sys_getenv w) v"
    by (simp only: spec_value_def)
  note s = step_assignment [OF h V]
  show "events (step w cb st) = events st @ [Callback key V] \<and>
   cb_context (step w cb st) = snd (callback cb key V (cb_context st)) \<and>
   result (step w cb st) =
     (case fst (callback cb key V (cb_context st)) of
        None \<Rightarrow> None
      | Some e \<Rightarrow> Some (Returned False (Some
          (''Error in configuration file '' @ path f @ '' line '' @
           string_of_nat (linenum f + 1) @ '': '' @ e))))"
    by (intro conjI s(1) s(2) s(3))
qed

theorem value_unescaped_or_expanded_witness:
  "cb_context (step env_world recording
      (initial_state ''p'' [''  x  =  $ENV:HOME b$ENV:HOME $x  # c''] None [])) =
     [(''x'', ''/root b$ENV:HOME $x'')] \<and>
   cb_context (step env_world recording (step env_world recording
      (initial_state ''p''
         [''x = '' @ [CHR 0x22] @ ''$ENV:HOME '' @ [CHR 0x5C],
          [CHR 0x5C, CHR 0x22] @ ''q'' @ [CHR 0x5C, CHR 0x22, CHR 0x22]] None []))) =
     [(''x'', ''$ENV:HOME '' @ [CHR 0x22] @ ''q'' @ [CHR 0x22])] \<and>
   result (step env_world nope_callbacks (initial_state ''p'' [''key=v''] None ())) =
     Some (Returned False (Some ''Error in configuration file p line 1: nope''))"
proof -
  note t = value_unescaped_or_expanded
  let ?l1 = "''  x  =  $ENV:HOME b$ENV:HOME $x  # c''"
  let ?s1 = "initial_state ''p'' [?l1] None [] :: (string \<times> string) list parser_state"
  let ?f1 = "\<lparr>path = ''p'', stream = [?l1], linenum = 0\<rparr>"
  let ?v1 = "''$ENV:HOME b$ENV:HOME $x''"
  have "result ?s1 = None \<and> input ?s1 = ?f1 # [] \<and> stream ?f1 = ?l1 # [] \<and> skip ?s1 \<le> 0 \<and>
      logical_line (full_line ?s1) (c_str ?l1) = Some (''x  =  '' @ ?v1) \<and>
      c_str (''x  =  '' @ ?v1) = ''x'' @ ''  '' @ ''='' @ ''  '' @ ?v1 \<and> key_bytes ''x'' \<and>
      list_all IS_WHITE ''  '' \<and> list_all IS_WHITE ''  '' \<and> (?v1 = [] \<or> \<not> IS_WHITE (hd ?v1)) \<and>
      (''  '' = [] \<or> (''x'' \<noteq> ''!include'' \<and> ''x'' \<noteq> ''!include_try'')) \<and>
      ''/root b$ENV:HOME $x'' =
        (if ?v1 \<noteq> [] \<and> hd ?v1 = last ?v1 \<and> (hd ?v1 = CHR 0x22 \<or> hd ?v1 = CHR 0x27)
         then str_unescape (butlast (tl ?v1))
         else expand_spec (sys_getenv env_world) True ?v1)"
    by code_simp
  from t [where cb = recording, rule_format, OF this]
  have "cb_context (step env_world recording ?s1) =
      snd (callback recording ''x'' ''/root b$ENV:HOME $x'' (cb_context ?s1))"
    by (rule conjunct2 [THEN conjunct1])
  moreover have "snd (callback recording ''x'' ''/root b$ENV:HOME $x'' (cb_context ?s1)) =
      [(''x'', ''/root b$ENV:HOME $x'')]"
    by code_simp
  ultimately have a: "cb_context (step env_world recording ?s1) = [(''x'', ''/root b$ENV:HOME $x'')]"
    by (rule trans)
  let ?l2 = "''x = '' @ [CHR 0x22] @ ''$ENV:HOME '' @ [CHR 0x5C]"
  let ?l3 = "[CHR 0x5C, CHR 0x22] @ ''q'' @ [CHR 0x5C, CHR 0x22, CHR 0x22]"
  let ?s2 = "step env_world recording
      (initial_state ''p'' [?l2, ?l3] None [] :: (string \<times> string) list parser_state)"
  let ?f2 = "\<lparr>path = ''p'', stream = [?l3], linenum = 1\<rparr>"
  let ?v2 = "[CHR 0x22] @ ''$ENV:HOME '' @ ?l3"
  let ?V2 = "''$ENV:HOME '' @ [CHR 0x22] @ ''q'' @ [CHR 0x22]"
  have "result ?s2 = None \<and> input ?s2 = ?f2 # [] \<and> stream ?f2 = ?l3 # [] \<and> skip ?s2 \<le> 0 \<and>
      logical_line (full_line ?s2) (c_str ?l3) = Some (''x = '' @ ?v2) \<and>
      c_str (''x = '' @ ?v2) = ''x'' @ '' '' @ ''='' @ '' '' @ ?v2 \<and> key_bytes ''x'' \<and>
      list_all IS_WHITE '' '' \<and> list_all IS_WHITE '' '' \<and> (?v2 = [] \<or> \<not> IS_WHITE (hd ?v2)) \<and>
      ('' '' = [] \<or> (''x'' \<noteq> ''!include'' \<and> ''x'' \<noteq> ''!include_try'')) \<and>
      ?V2 =
        (if ?v2 \<noteq> [] \<and> hd ?v2 = last ?v2 \<and> (hd ?v2 = CHR 0x22 \<or> hd ?v2 = CHR 0x27)
         then str_unescape (butlast (tl ?v2))
         else expand_spec (sys_getenv env_world) True ?v2)"
    by code_simp
  from t [where cb = recording, rule_format, OF this]
  have "cb_context (step env_world recording ?s2) =
      snd (callback recording ''x'' ?V2 (cb_context ?s2))"
    by (rule conjunct2 [THEN conjunct1])
  moreover have "snd (callback recording ''x'' ?V2 (cb_context ?s2)) = [(''x'', ?V2)]"
    by code_simp
  ultimately have b: "cb_context (step env_world recording ?s2) = [(''x'', ?V2)]"
    by (rule trans)
  let ?s3 = "initial_state ''p'' [''key=v''] None () :: unit parser_state"
  let ?f3 = "\<lparr>path = ''p'', stream = [''key=v''], linenum = 0\<rparr>"
  have "result ?s3 = None \<and> input ?s3 = ?f3 # [] \<and> stream ?f3 = ''key=v'' # [] \<and> skip ?s3 \<le> 0 \<and>
      logical_line (full_line ?s3) (c_str ''key=v'') = Some ''key=v'' \<and>
      c_str ''key=v'' = ''key'' @ [] @ ''='' @ [] @ ''v'' \<and> key_bytes ''key'' \<and>
      list_all IS_WHITE [] \<and> list_all IS_WHITE [] \<and> (''v'' = [] \<or> \<not> IS_WHITE (hd ''v'')) \<and>
      ([] = [] \<or> (''key'' \<noteq> ''!include'' \<and> ''key'' \<noteq> ''!include_try'')) \<and>
      ''v'' =
        (if ''v'' \<noteq> [] \<and> hd ''v'' = last ''v'' \<and> (hd ''v'' = CHR 0x22 \<or> hd ''v'' = CHR 0x27)
         then str_unescape (butlast (tl ''v''))
         else expand_spec (sys_getenv env_world) True ''v'')"
    by code_simp
  from t [where cb = nope_callbacks, rule_format, OF this]
  have "result (step env_world nope_callbacks ?s3) =
     (case fst (callback nope_callbacks ''key'' ''v'' (cb_context ?s3)) of
        None \<Rightarrow> None
      | Some e \<Rightarrow> Some (Returned False (Some
          (''Error in configuration file '' @ path ?f3 @ '' line '' @
           string_of_nat (linenum ?f3 + 1) @ '': '' @ e))))"
    by (rule conjunct2 [THEN conjunct2])
  moreover have "(case fst (callback nope_callbacks ''key'' ''v'' (cb_context ?s3)) of
        None \<Rightarrow> None
      | Some e \<Rightarrow> Some (Returned False (Some
          (''Error in configuration file '' @ path ?f3 @ '' line '' @
           string_of_nat (linenum ?f3 + 1) @ '': '' @ e)))) =
      Some (Returned False (Some ''Error in configuration file p line 1: nope''))"
    by code_simp
  ultimately have c: "result (step env_world nope_callbacks ?s3) =
      Some (Returned False (Some ''Error in configuration file p line 1: nope''))"
    by (rule trans)
  from a b c show ?thesis
    by (intro conjI)
qed

subsection \<open>Unterminated quotes\<close>

text \<open>
  C7, as stated, fails: the value of \<open>k = "abc # def\<close> opens a quote that is never
  closed, and the parse succeeds with the text, quote and \<open>#\<close> included, delivered to
  the key-value callback.
\<close>

theorem unterminated_quote_counterexample:
  "result (settings_read_i (file_world [(''p'', [''k = '' @ [CHR 0x22] @ ''abc # def''])])
      accept_all ''p'' None () 2) = Some (Returned True None) \<and>
   events (settings_read_i (file_world [(''p'', [''k = '' @ [CHR 0x22] @ ''abc # def''])])
      accept_all ''p'' None () 2) = [Callback ''k'' ([CHR 0x22] @ ''abc # def'')]"
  by code_simp

text \<open>
  C7, amended: an assignment on a line where the comment scan ends inside a quote (an
  opening quote is never closed before the end of the line) is not a syntax error.  No
  comment is cut off and no warning is given, so the value \<open>v\<close> runs to the end of the
  line, and it is delivered to the key-value callback like any other value: if its
  first and last bytes are the same quote character it is delivered without these two
  and unescaped, not expanded; otherwise it is delivered environment-expanded, its quote
  characters kept.  The parse goes on when the callback returns no error and fails with
  the callback's own message otherwise.  This is for a line that does not end in a
  continuation backslash and is not skipped.  The scan ends inside a quote in
  particular when the line is a text without quotes and \<open>#\<close>, followed by a quote
  character and a body in which the search for the closing quote reaches the end.
\<close>

theorem unterminated_quote_delivered:
  "(result st = None \<and> input st = f # prev \<and> stream f = l # ls \<and> skip st \<le> 0 \<and>
    unterminated (dropWhile IS_WHITE (c_str l)) \<and>
    line = rtrim (dropWhile IS_WHITE (c_str l)) \<and> last line \<noteq> CHR 0x5C \<and>
    c_str (full_line st @ line) = key @ ws1 @ ''='' @ ws2 @ v \<and> key_bytes key \<and>
    list_all IS_WHITE ws1 \<and> list_all IS_WHITE ws2 \<and> (v = [] \<or> \<not> IS_WHITE (hd v)) \<and>
    (ws1 = [] \<or> (key \<noteq> ''!include'' \<and> key \<noteq> ''!include_try'')) \<and>
    V = (if v \<noteq> [] \<and> hd v = last v \<and> (hd v = CHR 0x22 \<or> hd v = CHR 0x27)
         then str_unescape (butlast (tl v))
         else expand_spec (sys_getenv w) True v) \<longrightarrow>
    events (step w cb st) = events st @ [Callback key V] \<and>
    cb_context (step w cb st) = snd (callback cb key V (cb_context st)) \<and>
    result (step w cb st) =
      (case fst (callback cb key V (cb_context st)) of
         None \<Rightarrow> None
       | Some e \<Rightarrow> Some (Returned False (Some
           (''Error in configuration file '' @ path f @ '' line '' @
            string_of_nat (linenum f + 1) @ '': '' @ e)))) \<and>
    warnings (step w cb st) = warnings st) \<and>
   (list_all (\<lambda>c. c \<noteq> CHR ''#'' \<and> c \<noteq> CHR 0x22 \<and> c \<noteq> CHR 0x27) pre \<and>
    (q = CHR 0x22 \<or> q = CHR 0x27) \<and> length body \<le> scan_quoted q body \<longrightarrow>
      unterminated (pre @ q # body))"
proof (intro conjI impI)
  assume a: "result st = None \<and> input st = f # prev \<and> stream f = l # ls \<and> skip st \<le> 0 \<and>
    unterminated (dropWhile IS_WHITE (c_str l)) \<and>
    line = rtrim (dropWhile IS_WHITE (c_str l)) \<and> last line \<noteq> CHR 0x5C \<and>
    c_str (full_line st @ line) = key @ ws1 @ ''='' @ ws2 @ v \<and> key_bytes key \<and>
    list_all IS_WHITE ws1 \<and> list_all IS_WHITE ws2 \<and> (v = [] \<or> \<not> IS_WHITE (hd v)) \<and>
    (ws1 = [] \<or> (key \<noteq> ''!include'' \<and> key \<noteq> ''!include_try'')) \<and>
    V = (if v \<noteq> [] \<and> hd v = last v \<and> (hd v = CHR 0x22 \<or> hd v = CHR 0x27)
         then str_unescape (butlast (tl v))
         else expand_spec (sys_getenv w) True v)"
  then have u: "unterminated (dropWhile IS_WHITE (c_str l))"
    and line: "line = rtrim (dropWhile IS_WHITE (c_str l))" and nb: "line = [] \<or> last line \<noteq> CHR 0x5C"
    by blast+
  have ll: "logical_line (full_line st) (c_str l) = Some (full_line st @ line)"
    using u line nb by (rule logical_line_unterminated)
  have cp: "comment_pos (dropWhile IS_WHITE (c_str l)) = None"
    using u by (rule unterminated_comment_pos)
  from a have h: "result st = None" "input st = f # prev" "stream f = l # ls" "skip st \<le> 0"
    and g: "c_str (full_line st @ line) = key @ ws1 @ ''='' @ ws2 @ v" "key_bytes key"
    "list_all IS_WHITE ws1"
    "list_all IS_WHITE ws2" "v = [] \<or> \<not> IS_WHITE (hd v)"
    "ws1 = [] \<or> (key \<noteq> ''!include'' \<and> key \<noteq> ''!include_try'')"
    by blast+
  from a have V: "V = spec_value (sys_getenv w) v"
    by (simp only: spec_value_def)
  note s = step_assignment [OF h ll g V]
  show "events (step w cb st) = events st @ [Callback key V]"
    by (rule s(1))
  show "cb_context (step w cb st) = snd (callback cb key V (cb_context st))"
    by (rule s(2))
  show "result (step w cb st) =
      (case fst (callback cb key V (cb_context st)) of
         None \<Rightarrow> None
       | Some e \<Rightarrow> Some (Returned False (Some
           (''Error in configuration file '' @ path f @ '' line '' @
            string_of_nat (linenum f + 1) @ '': '' @ e))))"
    by (rule s(3))
  have "c_str (full_line st @ line) = key @ ws1 @ ''='' @ (ws2 @ v)"
    using g(1) by simp
  from step_assignment_warnings [OF h ll cp this g(2,3,6)]
  show "warnings (step w cb st) = warnings st" .
next
  assume "list_all (\<lambda>c. c \<noteq> CHR ''#'' \<and> c \<noteq> CHR 0x22 \<and> c \<noteq> CHR 0x27) pre \<and>
    (q = CHR 0x22 \<or> q = CHR 0x27) \<and> length body \<le> scan_quoted q body"
  then show "unterminated (pre @ q # body)"
    by (intro unterminated_shape) simp_all
qed

theorem unterminated_quote_witness:
  "cb_context (step env_world recording
      (initial_state ''p'' [''k = '' @ [CHR 0x22] @ ''$ENV:HOME'' @ [CHR 0x5C, CHR 0x22]] None [])) =
     [(''k'', ''$ENV:HOME'')] \<and>
   cb_context (step env_world recording
      (initial_state ''p''
         [''k = '' @ [CHR 0x27] @ ''a'' @ [CHR 0x27] @ '' $ENV:HOME '' @ [CHR 0x22] @ ''b # c'' @
          [CHR 0x27]] None [])) =
     [(''k'', ''a'' @ [CHR 0x27] @ '' $ENV:HOME '' @ [CHR 0x22] @ ''b # c'')] \<and>
   cb_context (step env_world recording
      (initial_state ''p'' [''k = '' @ ''$ENV:HOME '' @ [CHR 0x22] @ ''abc # def''] None [])) =
     [(''k'', ''/root '' @ [CHR 0x22] @ ''abc # def'')] \<and>
   result (step env_world recording
      (initial_state ''p'' [''k = '' @ ''$ENV:HOME '' @ [CHR 0x22] @ ''abc # def''] None [])) = None \<and>
   unterminated (''k = '' @ CHR 0x22 # ''abc # def'')"
proof -
  note t = unterminated_quote_delivered [THEN conjunct1, rule_format]
  let ?v1 = "[CHR 0x22] @ ''$ENV:HOME'' @ [CHR 0x5C, CHR 0x22]"
  let ?l1 = "''k = '' @ ?v1"
  let ?s1 = "initial_state ''p'' [?l1] None [] :: (string \<times> string) list parser_state"
  let ?f1 = "\<lparr>path = ''p'', stream = [?l1], linenum = 0\<rparr>"
  have "result ?s1 = None \<and> input ?s1 = ?f1 # [] \<and> stream ?f1 = ?l1 # [] \<and> skip ?s1 \<le> 0 \<and>
      unterminated (dropWhile IS_WHITE (c_str ?l1)) \<and>
      ?l1 = rtrim (dropWhile IS_WHITE (c_str ?l1)) \<and> last ?l1 \<noteq> CHR 0x5C \<and>
      c_str (full_line ?s1 @ ?l1) = ''k'' @ '' '' @ ''='' @ '' '' @ ?v1 \<and> key_bytes ''k'' \<and>
      list_all IS_WHITE '' '' \<and> list_all IS_WHITE '' '' \<and> (?v1 = [] \<or> \<not> IS_WHITE (hd ?v1)) \<and>
      ('' '' = [] \<or> (''k'' \<noteq> ''!include'' \<and> ''k'' \<noteq> ''!include_try'')) \<and>
      ''$ENV:HOME'' =
        (if ?v1 \<noteq> [] \<and> hd ?v1 = last ?v1 \<and> (hd ?v1 = CHR 0x22 \<or> hd ?v1 = CHR 0x27)
         then str_unescape (butlast (tl ?v1))
         else expand_spec (sys_getenv env_world) True ?v1)"
    by code_simp
  from t [where cb = recording, OF this]
  have "cb_context (step env_world recording ?s1) =
      snd (callback recording ''k'' ''$ENV:HOME'' (cb_context ?s1))"
    by (rule conjunct2 [THEN conjunct1])
  moreover have "snd (callback recording ''k'' ''$ENV:HOME'' (cb_context ?s1)) =
      [(''k'', ''$ENV:HOME'')]"
    by code_simp
  ultimately have a: "cb_context (step env_world recording ?s1) = [(''k'', ''$ENV:HOME'')]"
    by (rule trans)
  let ?v2 = "[CHR 0x27] @ ''a'' @ [CHR 0x27] @ '' $ENV:HOME '' @ [CHR 0x22] @ ''b # c'' @ [CHR 0x27]"
  let ?V2 = "''a'' @ [CHR 0x27] @ '' $ENV:HOME '' @ [CHR 0x22] @ ''b # c''"
  let ?l2 = "''k = '' @ ?v2"
  let ?s2 = "initial_state ''p'' [?l2] None [] :: (string \<times> string) list parser_state"
  let ?f2 = "\<lparr>path = ''p'', stream = [?l2], linenum = 0\<rparr>"
  have "result ?s2 = None \<and> input ?s2 = ?f2 # [] \<and> stream ?f2 = ?l2 # [] \<and> skip ?s2 \<le> 0 \<and>
      unterminated (dropWhile IS_WHITE (c_str ?l2)) \<and>
      ?l2 = rtrim (dropWhile IS_WHITE (c_str ?l2)) \<and> last ?l2 \<noteq> CHR 0x5C \<and>
      c_str (full_line ?s2 @ ?l2) = ''k'' @ '' '' @ ''='' @ '' '' @ ?v2 \<and> key_bytes ''k'' \<and>
      list_all IS_WHITE '' '' \<and> list_all IS_WHITE '' '' \<and> (?v2 = [] \<or> \<not> IS_WHITE (hd ?v2)) \<and>
      ('' '' = [] \<or> (''k'' \<noteq> ''!include'' \<and> ''k'' \<noteq> ''!include_try'')) \<and>
      ?V2 =
        (if ?v2 \<noteq> [] \<and> hd ?v2 = last ?v2 \<and> (hd ?v2 = CHR 0x22 \<or> hd ?v2 = CHR 0x27)
         then str_unescape (butlast (tl ?v2))
         else expand_spec (sys_getenv env_world) True ?v2)"
    by code_simp
  from t [where cb = recording, OF this]
  have "cb_context (step env_world recording ?s2) =
      snd (callback recording ''k'' ?V2 (cb_context ?s2))"
    by (rule conjunct2 [THEN conjunct1])
  moreover have "snd (callback recording ''k'' ?V2 (cb_context ?s2)) = [(''k'', ?V2)]"
    by code_simp
  ultimately have b: "cb_context (step env_world recording ?s2) = [(''k'', ?V2)]"
    by (rule trans)
  let ?v3 = "''$ENV:HOME '' @ [CHR 0x22] @ ''abc # def''"
  let ?V3 = "''/root '' @ [CHR 0x22] @ ''abc # def''"
  let ?l3 = "''k = '' @ ?v3"
  let ?s3 = "initial_state ''p'' [?l3] None [] :: (string \<times> string) list parser_state"
  let ?f3 = "\<lparr>path = ''p'', stream = [?l3], linenum = 0\<rparr>"
  have "result ?s3 = None \<and> input ?s3 = ?f3 # [] \<and> stream ?f3 = ?l3 # [] \<and> skip ?s3 \<le> 0 \<and>
      unterminated (dropWhile IS_WHITE (c_str ?l3)) \<and>
      ?l3 = rtrim (dropWhile IS_WHITE (c_str ?l3)) \<and> last ?l3 \<noteq> CHR 0x5C \<and>
      c_str (full_line ?s3 @ ?l3) = ''k'' @ '' '' @ ''='' @ '' '' @ ?v3 \<and> key_bytes ''k'' \<and>
      list_all IS_WHITE '' '' \<and> list_all IS_WHITE '' '' \<and> (?v3 = [] \<or> \<not> IS_WHITE (hd ?v3)) \<and>
      ('' '' = [] \<or> (''k'' \<noteq> ''!include'' \<and> ''k'' \<noteq> ''!include_try'')) \<and>
      ?V3 =
        (if ?v3 \<noteq> [] \<and> hd ?v3 = last ?v3 \<and> (hd ?v3 = CHR 0x22 \<or> hd ?v3 = CHR 0x27)
         then str_unescape (butlast (tl ?v3))
         else expand_spec (sys_getenv env_world) True ?v3)"
    by code_simp
  note r3 = t [where cb = recording, OF this]
  from r3 have "cb_context (step env_world recording ?s3) =
      snd (callback recording ''k'' ?V3 (cb_context ?s3))"
    by (rule conjunct2 [THEN conjunct1])
  moreover have "snd (callback recording ''k'' ?V3 (cb_context ?s3)) = [(''k'', ?V3)]"
    by code_simp
  ultimately have c: "cb_context (step env_world recording ?s3) = [(''k'', ?V3)]"
    by (rule trans)
  from r3 have "result (step env_world recording ?s3) =
      (case fst (callback recording ''k'' ?V3 (cb_context ?s3)) of
         None \<Rightarrow> None
       | Some e \<Rightarrow> Some (Returned False (Some
           (''Error in configuration file '' @ path ?f3 @ '' line '' @
            string_of_nat (linenum ?f3 + 1) @ '': '' @ e))))"
    by (rule conjunct2 [THEN conjunct2, THEN conjunct1])
  moreover have "(case fst (callback recording ''k'' ?V3 (cb_context ?s3)) of
         None \<Rightarrow> None
       | Some e \<Rightarrow> Some (Returned False (Some
           (''Error in configuration file '' @ path ?f3 @ '' line '' @
            string_of_nat (linenum ?f3 + 1) @ '': '' @ e)))) = None"
    by code_simp
  ultimately have d: "result (step env_world recording ?s3) = None"
    by (rule trans)
  have "list_all (\<lambda>c. c \<noteq> CHR ''#'' \<and> c \<noteq> CHR 0x22 \<and> c \<noteq> CHR 0x27) ''k = '' \<and>
      (CHR 0x22 = CHR 0x22 \<or> CHR 0x22 = CHR 0x27) \<and>
      length ''abc # def'' \<le> scan_quoted (CHR 0x22) ''abc # def''"
    by code_simp
  then have e: "unterminated (''k = '' @ CHR 0x22 # ''abc # def'')"
    by (rule unterminated_quote_delivered [THEN conjunct2, rule_format])
  from a b c d e show ?thesis
    by (intro conjI)
qed

subsection \<open>Unsigned numbers\<close>

text \<open>
  C9, as stated, fails: \<open>0x1F\<close> is neither a decimal nor an octal representation and
  \<open>12abc\<close> is not the representation of a number at all, yet \<open>get_uint\<close> accepts both.
\<close>

theorem get_uint_counterexample:
  "get_uint ''0x1F'' = Uint 31 \<and> get_uint ''12abc'' = Uint 12"
  by code_simp

text \<open>
  C9, amended: \<open>get_uint\<close> (also reached through \<open>parse_setting_from_defs\<close> for
  \<open>SET_INT\<close> definitions) reads its value as \<open>%i\<close> does.  Every value is white space,
  an optional sign and a rest.  When the rest starts with an integer literal of C -
  decimal digits not starting with \<open>0\<close>, or \<open>0\<close> and octal digits, or \<open>0x\<close> and
  hexadecimal digits, possibly none - the literal is read, as many digits as there are,
  and what follows it is ignored; when it does not, the call fails.  The signed value
  of the literal, limited to the range of \<open>long\<close>, is stored by its low 32 bits: when
  these make a negative \<open>int\<close> the call fails, otherwise their value is the result.  So
  a literal with a value from 0 to \<open>INT_MAX\<close> is accepted with its value and one with
  a value from \<open>INT_MIN\<close> to -1 is refused.  Every failure has the message
  \<open>Invalid number: <v>\<close> and writes nothing.
\<close>

theorem get_uint_accepts_scanf_integers:
  "(list_all isspace ws \<and> is_sign sg \<and> decimal_literal ds rest \<longrightarrow>
      get_uint (ws @ sg @ ds @ rest) =
        uint_of (ws @ sg @ ds @ rest) (sg = ''-'') (digits_value 10 ds)) \<and>
   (list_all isspace ws \<and> is_sign sg \<and> octal_literal ds rest \<longrightarrow>
      get_uint (ws @ sg @ CHR ''0'' # ds @ rest) =
        uint_of (ws @ sg @ CHR ''0'' # ds @ rest) (sg = ''-'') (digits_value 8 ds)) \<and>
   (list_all isspace ws \<and> is_sign sg \<and> hex_literal x ds rest \<longrightarrow>
      get_uint (ws @ sg @ CHR ''0'' # x # ds @ rest) =
        uint_of (ws @ sg @ CHR ''0'' # x # ds @ rest) (sg = ''-'') (digits_value 16 ds)) \<and>
   (list_all isspace ws \<and> is_sign sg \<and> no_literal sg rest \<longrightarrow>
      get_uint (ws @ sg @ rest) = Invalid_Number (''Invalid number: '' @ ws @ sg @ rest)) \<and>
   (\<exists>ws sg t. v = ws @ sg @ t \<and> list_all isspace ws \<and> is_sign sg \<and>
      ((\<exists>ds rest. t = ds @ rest \<and> decimal_literal ds rest) \<or>
       (\<exists>ds rest. t = CHR ''0'' # ds @ rest \<and> octal_literal ds rest) \<or>
       (\<exists>x ds rest. t = CHR ''0'' # x # ds @ rest \<and> hex_literal x ds rest) \<or>
       no_literal sg t)) \<and>
   uint_of v neg m =
     (let low = strtol_value neg m mod 4294967296 in
      if low < 2147483648 then Uint (nat low) else Invalid_Number (''Invalid number: '' @ v)) \<and>
   (int m \<le> INT_MAX \<longrightarrow> uint_of v False m = Uint m) \<and>
   (0 < m \<and> INT_MIN \<le> - int m \<longrightarrow>
      uint_of v True m = Invalid_Number (''Invalid number: '' @ v)) \<and>
   (get_uint v = Invalid_Number e \<longrightarrow> e = ''Invalid number: '' @ v) \<and>
   (def_name d = key \<and> def_type d = SET_INT \<longrightarrow>
      parse_setting_from_defs (d # defs) base key v =
        (case get_uint v of
           Invalid_Number e \<Rightarrow> Set_Error e
         | Uint u \<Rightarrow> Set_Ok (base(def_offset d \<mapsto> Int_Value u))))"
proof (intro conjI impI)
  assume "list_all isspace ws \<and> is_sign sg \<and> decimal_literal ds rest"
  then show "get_uint (ws @ sg @ ds @ rest) =
        uint_of (ws @ sg @ ds @ rest) (sg = ''-'') (digits_value 10 ds)"
    by (intro get_uint_decimal) simp_all
next
  assume "list_all isspace ws \<and> is_sign sg \<and> octal_literal ds rest"
  then show "get_uint (ws @ sg @ CHR ''0'' # ds @ rest) =
        uint_of (ws @ sg @ CHR ''0'' # ds @ rest) (sg = ''-'') (digits_value 8 ds)"
    by (intro get_uint_octal) simp_all
next
  assume "list_all isspace ws \<and> is_sign sg \<and> hex_literal x ds rest"
  then show "get_uint (ws @ sg @ CHR ''0'' # x # ds @ rest) =
        uint_of (ws @ sg @ CHR ''0'' # x # ds @ rest) (sg = ''-'') (digits_value 16 ds)"
    by (intro get_uint_hex) simp_all
next
  assume "list_all isspace ws \<and> is_sign sg \<and> no_literal sg rest"
  then show "get_uint (ws @ sg @ rest) = Invalid_Number (''Invalid number: '' @ ws @ sg @ rest)"
    by (intro get_uint_no_literal) simp_all
next
  show "\<exists>ws sg t. v = ws @ sg @ t \<and> list_all isspace ws \<and> is_sign sg \<and>
      ((\<exists>ds rest. t = ds @ rest \<and> decimal_literal ds rest) \<or>
       (\<exists>ds rest. t = CHR ''0'' # ds @ rest \<and> octal_literal ds rest) \<or>
       (\<exists>x ds rest. t = CHR ''0'' # x # ds @ rest \<and> hex_literal x ds rest) \<or>
       no_literal sg t)"
    by (rule get_uint_forms)
next
  show "uint_of v neg m =
     (let low = strtol_value neg m mod 4294967296 in
      if low < 2147483648 then Uint (nat low) else Invalid_Number (''Invalid number: '' @ v))"
    by (rule uint_of_low_bits)
next
  assume "int m \<le> INT_MAX"
  then show "uint_of v False m = Uint m"
    by (rule uint_of_in_range)
next
  assume "0 < m \<and> INT_MIN \<le> - int m"
  then show "uint_of v True m = Invalid_Number (''Invalid number: '' @ v)"
    by (intro uint_of_negative) simp_all
next
  assume "get_uint v = Invalid_Number e"
  then show "e = ''Invalid number: '' @ v"
    by (rule get_uint_message)
next
  assume "def_name d = key \<and> def_type d = SET_INT"
  then show "parse_setting_from_defs (d # defs) base key v =
        (case get_uint v of
           Invalid_Number e \<Rightarrow> Set_Error e
         | Uint u \<Rightarrow> Set_Ok (base(def_offset d \<mapsto> Int_Value u)))"
    by simp
qed

theorem get_uint_witness:
  "get_uint '' +600 MB'' = Uint 600 \<and>
   get_uint ''0600'' = Uint 384 \<and>
   get_uint ''0x1Fg'' = Uint 31 \<and>
   get_uint ''0x'' = Uint 0 \<and>
   get_uint ''-5abc'' = Invalid_Number ''Invalid number: -5abc'' \<and>
   get_uint ''-010'' = Invalid_Number ''Invalid number: -010'' \<and>
   get_uint ''-x'' = Invalid_Number ''Invalid number: -x'' \<and>
   get_uint ''2147483648'' = Invalid_Number ''Invalid number: 2147483648'' \<and>
   get_uint ''4294967297'' = Uint 1 \<and>
   get_uint ''-2147483649'' = Uint 2147483647 \<and>
   parse_setting_from_defs
     [\<lparr>def_type = SET_INT, def_name = ''mode'', def_offset = 8\<rparr>] Map.empty ''mode'' ''-x''
     = Set_Error ''Invalid number: -x''"
proof -
  note t = get_uint_accepts_scanf_integers
  note dec = t [THEN conjunct1, rule_format]
  note oct = t [THEN conjunct2, THEN conjunct1, rule_format]
  note hex = t [THEN conjunct2, THEN conjunct2, THEN conjunct1, rule_format]
  note none = t [THEN conjunct2, THEN conjunct2, THEN conjunct2, THEN conjunct1, rule_format]
  note low = t [THEN conjunct2, THEN conjunct2, THEN conjunct2, THEN conjunct2, THEN conjunct2,
      THEN conjunct1]
  note pos = t [THEN conjunct2, THEN conjunct2, THEN conjunct2, THEN conjunct2, THEN conjunct2,
      THEN conjunct2, THEN conjunct1, rule_format]
  note neg = t [THEN conjunct2, THEN conjunct2, THEN conjunct2, THEN conjunct2, THEN conjunct2,
      THEN conjunct2, THEN conjunct2, THEN conjunct1, rule_format]
  note msg = t [THEN conjunct2, THEN conjunct2, THEN conjunct2, THEN conjunct2, THEN conjunct2,
      THEN conjunct2, THEN conjunct2, THEN conjunct2, THEN conjunct1, rule_format]
  note defs = t [THEN conjunct2, THEN conjunct2, THEN conjunct2, THEN conjunct2, THEN conjunct2,
      THEN conjunct2, THEN conjunct2, THEN conjunct2, THEN conjunct2, rule_format]
  let ?d = "\<lparr>def_type = SET_INT, def_name = ''mode'', def_offset = 8\<rparr>"
  have "list_all isspace '' '' \<and> is_sign ''+'' \<and> decimal_literal ''600'' '' MB''"
    by code_simp
  then have "get_uint ('' '' @ ''+'' @ ''600'' @ '' MB'') =
      uint_of ('' '' @ ''+'' @ ''600'' @ '' MB'') (''+'' = ''-'') (digits_value 10 ''600'')"
    by (rule dec)
  moreover have "uint_of v False 600 = Uint 600" for v
    by (rule pos) (simp add: INT_MAX_def)
  ultimately have a: "get_uint '' +600 MB'' = Uint 600"
    by (simp add: digits_value_def digit_val_decimal)
  have "list_all isspace [] \<and> is_sign [] \<and> octal_literal ''600'' []"
    by code_simp
  then have "get_uint ([] @ [] @ CHR ''0'' # ''600'' @ []) =
      uint_of ([] @ [] @ CHR ''0'' # ''600'' @ []) ([] = ''-'') (digits_value 8 ''600'')"
    by (rule oct)
  moreover have "uint_of v False 384 = Uint 384" for v
    by (rule pos) (simp add: INT_MAX_def)
  ultimately have b: "get_uint ''0600'' = Uint 384"
    by (simp add: digits_value_def digit_val_decimal)
  have "list_all isspace [] \<and> is_sign [] \<and> hex_literal (CHR ''x'') ''1F'' ''g''"
    by code_simp
  then have "get_uint ([] @ [] @ CHR ''0'' # CHR ''x'' # ''1F'' @ ''g'') =
      uint_of ([] @ [] @ CHR ''0'' # CHR ''x'' # ''1F'' @ ''g'') ([] = ''-'')
        (digits_value 16 ''1F'')"
    by (rule hex)
  moreover have "uint_of v False 31 = Uint 31" for v
    by (rule pos) (simp add: INT_MAX_def)
  ultimately have c: "get_uint ''0x1Fg'' = Uint 31"
    by (simp add: digits_value_def digit_val_def)
  have "list_all isspace [] \<and> is_sign [] \<and> hex_literal (CHR ''x'') [] []"
    by code_simp
  then have "get_uint ([] @ [] @ CHR ''0'' # CHR ''x'' # [] @ []) =
      uint_of ([] @ [] @ CHR ''0'' # CHR ''x'' # [] @ []) ([] = ''-'') (digits_value 16 [])"
    by (rule hex)
  moreover have "uint_of v False 0 = Uint 0" for v
    by (rule pos) (simp add: INT_MAX_def)
  ultimately have d: "get_uint ''0x'' = Uint 0"
    by (simp add: digits_value_def)
  have "list_all isspace [] \<and> is_sign ''-'' \<and> decimal_literal ''5'' ''abc''"
    by code_simp
  then have "get_uint ([] @ ''-'' @ ''5'' @ ''abc'') =
      uint_of ([] @ ''-'' @ ''5'' @ ''abc'') (''-'' = ''-'') (digits_value 10 ''5'')"
    by (rule dec)
  moreover have "uint_of v True 5 = Invalid_Number (''Invalid number: '' @ v)" for v
    by (rule neg) (simp add: INT_MIN_def)
  ultimately have e: "get_uint ''-5abc'' = Invalid_Number ''Invalid number: -5abc''"
    by (simp add: digits_value_def digit_val_decimal)
  have "list_all isspace [] \<and> is_sign ''-'' \<and> octal_literal ''10'' []"
    by code_simp
  then have "get_uint ([] @ ''-'' @ CHR ''0'' # ''10'' @ []) =
      uint_of ([] @ ''-'' @ CHR ''0'' # ''10'' @ []) (''-'' = ''-'') (digits_value 8 ''10'')"
    by (rule oct)
  moreover have "uint_of v True 8 = Invalid_Number (''Invalid number: '' @ v)" for v
    by (rule neg) (simp add: INT_MIN_def)
  ultimately have f: "get_uint ''-010'' = Invalid_Number ''Invalid number: -010''"
    by (simp add: digits_value_def digit_val_decimal)
  have "list_all isspace [] \<and> is_sign ''-'' \<and> no_literal ''-'' ''x''"
    by code_simp
  then have "get_uint ([] @ ''-'' @ ''x'') = Invalid_Number (''Invalid number: '' @ [] @ ''-'' @ ''x'')"
    by (rule none)
  then have g: "get_uint ''-x'' = Invalid_Number ''Invalid number: -x''"
    by simp
  have "list_all isspace [] \<and> is_sign [] \<and> decimal_literal ''2147483648'' []"
    by code_simp
  then have "get_uint ([] @ [] @ ''2147483648'' @ []) =
      uint_of ([] @ [] @ ''2147483648'' @ []) ([] = ''-'') (digits_value 10 ''2147483648'')"
    by (rule dec)
  then have h: "get_uint ''2147483648'' = Invalid_Number ''Invalid number: 2147483648''"
    by (simp add: low digits_value_def digit_val_decimal strtol_value_def LONG_MAX_def)
  have "list_all isspace [] \<and> is_sign [] \<and> decimal_literal ''4294967297'' []"
    by code_simp
  then have "get_uint ([] @ [] @ ''4294967297'' @ []) =
      uint_of ([] @ [] @ ''4294967297'' @ []) ([] = ''-'') (digits_value 10 ''4294967297'')"
    by (rule dec)
  then have i: "get_uint ''4294967297'' = Uint 1"
    by (simp add: low digits_value_def digit_val_decimal strtol_value_def LONG_MAX_def)
  have "list_all isspace [] \<and> is_sign ''-'' \<and> decimal_literal ''2147483649'' []"
    by code_simp
  then have "get_uint ([] @ ''-'' @ ''2147483649'' @ []) =
      uint_of ([] @ ''-'' @ ''2147483649'' @ []) (''-'' = ''-'') (digits_value 10 ''2147483649'')"
    by (rule dec)
  then have j: "get_uint ''-2147483649'' = Uint 2147483647"
    by (simp add: low digits_value_def digit_val_decimal strtol_value_def LONG_MIN_def)
  have "def_name ?d = ''mode'' \<and> def_type ?d = SET_INT"
    by simp
  from defs [OF this, of "[]" Map.empty "''-x''"] g
  have k: "parse_setting_from_defs [?d] Map.empty ''mode'' ''-x'' = Set_Error ''Invalid number: -x''"
    by simp
  from msg [OF g] a b c d e f g h i j k show ?thesis
    by simp
qed

end
